theory Spec2Isabelle
  imports Main "HOL-Library.Sublist"
begin

section \<open>Common definitions\<close>

text \<open>
  Prices, volumes and timestamps are Python integers ("prices and volume are integers
  like in the other parts of the API"), modelled as \<open>int\<close>. Python strings are
  \<open>string\<close>; the substring test \<^verbatim>\<open>a in b\<close> on strings is \<open>sublist a b\<close>.
\<close>

datatype error = KeyError | IndexError | UnboundLocalError | ZeroDivisionError

definition py_in :: "string \<Rightarrow> string \<Rightarrow> bool" where
  "py_in a b = sublist a b"

text \<open>\<^verbatim>\<open>lst.pop(i)\<close> and \<^verbatim>\<open>lst.insert(i, x)\<close> for an index \<open>0 \<le> i \<le> len(lst)\<close>.\<close>

definition pop :: "'a list \<Rightarrow> nat \<Rightarrow> 'a list" where
  "pop lst i = take i lst @ drop (Suc i) lst"

definition insert_at :: "'a list \<Rightarrow> nat \<Rightarrow> 'a \<Rightarrow> 'a list" where
  "insert_at lst i x = take i lst @ x # drop i lst"

section \<open>OHLCV and History\<close>

record ohlcv =
  tim :: int
  opn :: int
  hig :: int
  low :: int
  cls :: int
  vol :: int

definition OHLCV :: "int \<Rightarrow> int \<Rightarrow> int \<Rightarrow> int \<Rightarrow> int \<Rightarrow> int \<Rightarrow> ohlcv" where
  "OHLCV t opn' hig' low' cls' vol' =
     \<lparr>tim = t, opn = opn', hig = hig', low = low', cls = cls', vol = vol'\<rparr>"

text \<open>\<^verbatim>\<open>OHLCV.update\<close>: update high, low and close values and add to volume.\<close>

definition update :: "ohlcv \<Rightarrow> int \<Rightarrow> int \<Rightarrow> ohlcv" where
  "update c price volume =
     (let c1 = (if price > hig c then c\<lparr>hig := price\<rparr> else c);
          c2 = (if price < low c1 then c1\<lparr>low := price\<rparr> else c1)
      in c2\<lparr>cls := price, vol := vol c2 + volume\<rparr>)"

record history =
  candles :: "ohlcv list"
  timeframe :: int
  ready_history :: bool

datatype history_signal =
  history_debug
  | signal_fullhistory_processed
  | history_signal_changed nat

datatype history_outcome =
  HReturned history "history_signal list"
  | HRaised error history "history_signal list"

text \<open>
  \<^verbatim>\<open>get_time_round\<close>: \<^verbatim>\<open>int(date / self.timeframe) * self.timeframe\<close>. The source
  is Python 2 (\<^verbatim>\<open>unicode\<close>), where \<^verbatim>\<open>/\<close> on integers is floor division, \<open>div\<close>,
  and \<^verbatim>\<open>int\<close> leaves the quotient as it is. A zero timeframe raises
  ZeroDivisionError, which the caller checks before the first use.
\<close>

definition get_time_round :: "int \<Rightarrow> int \<Rightarrow> int" where
  "get_time_round tf date = (date div tf) * tf"

text \<open>\<^verbatim>\<open>while len(self.candles) and self.candles[0].tim >= date_begin: self.candles.pop(0)\<close>\<close>

fun drop_recent :: "int \<Rightarrow> ohlcv list \<Rightarrow> ohlcv list" where
  "drop_recent date_begin [] = []"
| "drop_recent date_begin (c # cs) =
     (if tim c \<ge> date_begin then drop_recent date_begin cs else c # cs)"

text \<open>
  The body of \<^verbatim>\<open>for trade in history\<close>; a trade is the triple of its \<^verbatim>\<open>date\<close>,
  \<^verbatim>\<open>price\<close> and \<^verbatim>\<open>amount\<close> entries. The loop state is the candle list and
  \<^verbatim>\<open>new_candle\<close>.
\<close>

fun fullhistory_loop ::
  "int \<Rightarrow> (int \<times> int \<times> int) list \<Rightarrow> ohlcv list \<Rightarrow> ohlcv \<Rightarrow> ohlcv list \<times> ohlcv" where
  "fullhistory_loop tf [] cs new_candle = (cs, new_candle)"
| "fullhistory_loop tf ((date, price, volume) # rest) cs new_candle =
     (let time_round = get_time_round tf date in
      if time_round > tim new_candle then
        (let cs1 = (if tim new_candle > 0 then new_candle # cs else cs);
             new_candle1 = OHLCV time_round price price price price volume
         in fullhistory_loop tf rest cs1 (update new_candle1 price volume))
      else fullhistory_loop tf rest cs (update new_candle price volume))"

definition slot_fullhistory :: "history \<Rightarrow> (int \<times> int \<times> int) list \<Rightarrow> history_outcome" where
  "slot_fullhistory h hist =
     (case hist of
        [] \<Rightarrow> HReturned h [history_debug]
      | (date0, _, _) # _ \<Rightarrow>
          if timeframe h = 0 then HRaised ZeroDivisionError h []
          else
            (let date_begin = get_time_round (timeframe h) date0;
                 cs0 = drop_recent date_begin (candles h);
                 (cs1, new_candle) = fullhistory_loop (timeframe h) hist cs0 (OHLCV 0 0 0 0 0 0);
                 cs2 = new_candle # cs1
             in HReturned (h\<lparr>candles := cs2, ready_history := True\<rparr>)
                  [signal_fullhistory_processed, history_signal_changed (length cs2)]))"

text \<open>The live trade path \<^verbatim>\<open>History.slot_trade\<close>, which opens a candle without the extra update.\<close>

definition history_slot_trade ::
  "history \<Rightarrow> int \<times> int \<times> int \<times> string \<times> bool \<Rightarrow> history_outcome" where
  "history_slot_trade h data =
     (case data of (date, price, volume, dummy_typ, own) \<Rightarrow>
        if own then HReturned h []
        else if timeframe h = 0 then HRaised ZeroDivisionError h []
        else
          (let time_round = get_time_round (timeframe h) date in
           case candles h of
             [] \<Rightarrow>
               (let cs = [OHLCV time_round price price price price volume]
                in HReturned (h\<lparr>candles := cs\<rparr>) [history_signal_changed (length cs)])
           | candle # rest \<Rightarrow>
               if tim candle = time_round then
                 HReturned (h\<lparr>candles := update candle price volume # rest\<rparr>)
                   [history_signal_changed 1]
               else
                 (let cs = OHLCV time_round price price price price volume # candle # rest
                  in HReturned (h\<lparr>candles := cs\<rparr>)
                       [history_debug, history_signal_changed (length cs)])))"

section \<open>Level, Order and OrderBook\<close>

text \<open>
  Record fields carry the name of their class where the source reuses a name
  (\<^verbatim>\<open>Level.price\<close> is \<open>level_price\<close>, \<^verbatim>\<open>Order.price\<close> is \<open>order_price\<close>,
  \<^verbatim>\<open>OrderBook.bid\<close> is \<open>book_bid\<close>); a leading underscore of the source is dropped.
\<close>

record level =
  level_price :: int
  level_volume :: int
  level_own_volume :: int
  cache_total_vol :: int
  cache_total_vol_quote :: int

definition Level :: "int \<Rightarrow> int \<Rightarrow> level" where
  "Level price volume =
     \<lparr>level_price = price, level_volume = volume, level_own_volume = 0,
      cache_total_vol = 0, cache_total_vol_quote = 0\<rparr>"

record order =
  order_price :: int
  order_volume :: int
  order_typ :: string
  order_oid :: string
  order_status :: string

definition Order :: "int \<Rightarrow> int \<Rightarrow> string \<Rightarrow> string \<Rightarrow> string \<Rightarrow> order" where
  "Order price volume typ oid status =
     \<lparr>order_price = price, order_volume = volume, order_typ = typ,
      order_oid = oid, order_status = status\<rparr>"

text \<open>
  The signals an OrderBook emits, in the order of emission. \<open>signal_debug\<close> is the
  call of \<^verbatim>\<open>self.debug\<close>; the text of the log line is not modelled.
\<close>

datatype signal =
  signal_debug
  | signal_changed
  | signal_fulldepth_processed
  | signal_owns_changed
  | signal_own_added order
  | signal_own_removed order string
  | signal_own_opened order
  | signal_own_volume order int

record orderbook =
  bids :: "level list"
  asks :: "level list"
  owns :: "order list"
  book_bid :: int
  book_ask :: int
  total_bid :: int
  total_ask :: int
  ready_depth :: bool
  ready_owns :: bool
  last_change_type :: "string option"
  last_change_price :: int
  last_change_volume :: int
  depth_updated :: string
  orders_updated :: string
  valid_bid_cache :: int
  valid_ask_cache :: int

text \<open>\<^verbatim>\<open>OrderBook.__init__\<close>: a new empty orderbook.\<close>

definition empty_book :: orderbook where
  "empty_book =
     \<lparr>bids = [], asks = [], owns = [], book_bid = 0, book_ask = 0,
      total_bid = 0, total_ask = 0, ready_depth = False, ready_owns = False,
      last_change_type = None, last_change_price = 0, last_change_volume = 0,
      depth_updated = ''-'', orders_updated = ''-'',
      valid_bid_cache = - 1, valid_ask_cache = - 1\<rparr>"

text \<open>
  A method that mutates the book either returns or raises; in both cases the book as
  it is at that moment and the signals emitted so far are kept (an exception raised in
  a slot is caught by \<^verbatim>\<open>Signal.__call__\<close>, and the mutations made before it stay).
\<close>

datatype outcome =
  Returned orderbook "signal list"
  | Raised error orderbook "signal list"

definition then_do :: "outcome \<Rightarrow> (orderbook \<Rightarrow> outcome) \<Rightarrow> outcome" where
  "then_do r f =
     (case r of
        Raised e b s \<Rightarrow> Raised e b s
      | Returned b s \<Rightarrow>
          (case f b of
             Returned b' s' \<Rightarrow> Returned b' (s @ s')
           | Raised e b' s' \<Rightarrow> Raised e b' (s @ s')))"

definition update_total_ask :: "orderbook \<Rightarrow> int \<Rightarrow> orderbook" where
  "update_total_ask b volume = b\<lparr>total_ask := total_ask b + volume\<rparr>"

definition update_total_bid :: "orderbook \<Rightarrow> int \<Rightarrow> int \<Rightarrow> orderbook" where
  "update_total_bid b volume price = b\<lparr>total_bid := total_bid b + volume * price\<rparr>"

subsection \<open>Repairing crossed levels\<close>

function repair_crossed_bids :: "orderbook \<Rightarrow> int \<Rightarrow> orderbook" where
  "repair_crossed_bids b bid =
     (if bids b \<noteq> [] \<and> level_price (hd (bids b)) > bid then
        (let price = level_price (hd (bids b));
             volume = level_volume (hd (bids b));
             b1 = update_total_bid b (- volume) price
         in repair_crossed_bids (b1\<lparr>bids := tl (bids b1), valid_bid_cache := - 1\<rparr>) bid)
      else b)"
  by pat_completeness auto
termination
  by (relation "measure (\<lambda>(b, bid). length (bids b))") (auto simp: update_total_bid_def)

function repair_crossed_asks :: "orderbook \<Rightarrow> int \<Rightarrow> orderbook" where
  "repair_crossed_asks b ask =
     (if asks b \<noteq> [] \<and> level_price (hd (asks b)) < ask then
        (let volume = level_volume (hd (asks b));
             b1 = update_total_ask b (- volume)
         in repair_crossed_asks (b1\<lparr>asks := tl (asks b1), valid_ask_cache := - 1\<rparr>) ask)
      else b)"
  by pat_completeness auto
termination
  by (relation "measure (\<lambda>(b, ask). length (asks b))") (auto simp: update_total_ask_def)

subsection \<open>Finding a level\<close>

text \<open>
  The binary search of \<^verbatim>\<open>_find_level\<close>. It starts with \<open>lo = 0\<close> and
  \<open>hi = len(lst)\<close>, so \<open>mid < hi \<le> len(lst)\<close> and \<^verbatim>\<open>lst[mid]\<close> is in range.
  The variables \<^verbatim>\<open>low\<close>, \<^verbatim>\<open>high\<close> and \<^verbatim>\<open>comp\<close> of the source are \<open>lo\<close>, \<open>hi\<close>
  and \<open>cmp\<close>.
\<close>

function find_level_loop ::
  "(int \<Rightarrow> int \<Rightarrow> bool) \<Rightarrow> level list \<Rightarrow> int \<Rightarrow> nat \<Rightarrow> nat \<Rightarrow> nat \<times> level option" where
  "find_level_loop cmp lst price lo hi =
     (if lo < hi then
        (let mid = (lo + hi) div 2;
             midval = level_price (lst ! mid)
         in if cmp midval price then find_level_loop cmp lst price (mid + 1) hi
            else if cmp price midval then find_level_loop cmp lst price lo mid
            else (mid, Some (lst ! mid)))
      else (hi, None))"
  by pat_completeness auto
termination
  by (relation "measure (\<lambda>(cmp, lst, price, lo, hi). hi - lo)") auto

text \<open>
  \<^verbatim>\<open>_find_level\<close> returns the index and the level (the list is the side \<open>typ\<close> names);
  a \<open>typ\<close> other than "ask" and "bid" is a KeyError of the two dictionaries.
\<close>

definition side :: "orderbook \<Rightarrow> string \<Rightarrow> level list" where
  "side b typ = (if typ = ''ask'' then asks b else bids b)"

definition set_side :: "orderbook \<Rightarrow> string \<Rightarrow> level list \<Rightarrow> orderbook" where
  "set_side b typ lst = (if typ = ''ask'' then b\<lparr>asks := lst\<rparr> else b\<lparr>bids := lst\<rparr>)"

definition find_level :: "orderbook \<Rightarrow> string \<Rightarrow> int \<Rightarrow> error + (nat \<times> level option)" where
  "find_level b typ price =
     (if typ = ''ask'' then
        Inr (find_level_loop (\<lambda>x y. x < y) (asks b) price 0 (length (asks b)))
      else if typ = ''bid'' then
        Inr (find_level_loop (\<lambda>x y. x > y) (bids b) price 0 (length (bids b)))
      else Inl KeyError)"

subsection \<open>Depth, ticker and trade events\<close>

text \<open>
  \<^verbatim>\<open>_update_book\<close> returns whether the book has changed, with the book. Its only
  exception is the KeyError of \<^verbatim>\<open>_find_level\<close>, raised before anything is changed.
\<close>

definition update_book ::
  "orderbook \<Rightarrow> string \<Rightarrow> int \<Rightarrow> int \<Rightarrow> error + (bool \<times> orderbook)" where
  "update_book b typ price total_vol =
     (case find_level b typ price of
        Inl e \<Rightarrow> Inl e
      | Inr (index, level) \<Rightarrow>
          (let lst = side b typ;
               change =
                 (if total_vol = 0 then
                    (case level of
                       None \<Rightarrow> None
                     | Some l \<Rightarrow> Some (- level_volume l, pop lst index))
                  else
                    (case level of
                       None \<Rightarrow> Some (total_vol, insert_at lst index (Level price total_vol))
                     | Some l \<Rightarrow>
                         (let voldiff = total_vol - level_volume l in
                          if voldiff = 0 then None
                          else Some (voldiff, lst[index := l\<lparr>level_volume := total_vol\<rparr>]))))
           in case change of
                None \<Rightarrow> Inr (False, b)
              | Some (voldiff, lst') \<Rightarrow>
                  (let b1 = (set_side b typ lst')
                         \<lparr>last_change_type := Some typ, last_change_price := price,
                          last_change_volume := voldiff\<rparr>
                   in if typ = ''ask'' then
                        (let b2 = update_total_ask b1 voldiff;
                             b3 = (if asks b2 \<noteq> []
                                   then b2\<lparr>book_ask := level_price (hd (asks b2))\<rparr> else b2)
                         in Inr (True,
                              b3\<lparr>valid_ask_cache := min (valid_ask_cache b3) (int index - 1)\<rparr>))
                      else
                        (let b2 = update_total_bid b1 voldiff price;
                             b3 = (if bids b2 \<noteq> []
                                   then b2\<lparr>book_bid := level_price (hd (bids b2))\<rparr> else b2)
                         in Inr (True,
                              b3\<lparr>valid_bid_cache := min (valid_bid_cache b3) (int index - 1)\<rparr>)))))"

definition slot_depth :: "orderbook \<Rightarrow> string \<times> int \<times> int \<Rightarrow> outcome" where
  "slot_depth b data =
     (case data of (typ, price, total_vol) \<Rightarrow>
        (case update_book b typ price total_vol of
           Inl e \<Rightarrow> Raised e b []
         | Inr (changed, b') \<Rightarrow>
             if changed then Returned b' [signal_changed] else Returned b' []))"

definition slot_ticker :: "orderbook \<Rightarrow> int \<times> int \<Rightarrow> outcome" where
  "slot_ticker b data =
     (case data of (bid, ask) \<Rightarrow>
        (let b1 = b\<lparr>book_bid := bid, book_ask := ask, last_change_type := None,
                    last_change_price := 0, last_change_volume := 0\<rparr>;
             b2 = repair_crossed_asks b1 ask;
             b3 = repair_crossed_bids b2 bid
         in Returned b3 [signal_changed]))"

text \<open>
  \<^verbatim>\<open>slot_trade\<close>. \<^verbatim>\<open>self.asks[0].volume -= volume\<close> changes the first level in
  place; \<open>level0\<close> is \<^verbatim>\<open>self.asks[0]\<close> and \<open>top1\<close> is that level after the subtraction.
\<close>

definition slot_trade :: "orderbook \<Rightarrow> int \<times> int \<times> int \<times> string \<times> bool \<Rightarrow> outcome" where
  "slot_trade b data =
     (case data of (dummy_date, price, volume, typ, own) \<Rightarrow>
        if own then Returned b [signal_changed]
        else
          (let voldiff = - volume;
               b_ask =
                 (if typ = ''bid'' then
                    (let b1 = repair_crossed_asks b price;
                         b2 =
                           (case asks b1 of
                              [] \<Rightarrow> b1
                            | level0 # rest \<Rightarrow>
                                if level_price level0 = price then
                                  (let top1 = level0\<lparr>level_volume := level_volume level0 - volume\<rparr>;
                                       (voldiff1, asks1) =
                                         (if level_volume top1 \<le> 0
                                          then (voldiff - level_volume top1, rest)
                                          else (voldiff, top1 # rest));
                                       b' = b1\<lparr>asks := asks1, last_change_type := Some ''ask'',
                                                last_change_price := price,
                                                last_change_volume := voldiff1\<rparr>
                                   in (update_total_ask b' voldiff1)\<lparr>valid_ask_cache := - 1\<rparr>)
                                else b1)
                     in if asks b2 \<noteq> [] then b2\<lparr>book_ask := level_price (hd (asks b2))\<rparr>
                        else b2)
                  else b);
               b_bid =
                 (if typ = ''ask'' then
                    (let b1 = repair_crossed_bids b_ask price;
                         b2 =
                           (case bids b1 of
                              [] \<Rightarrow> b1
                            | level0 # rest \<Rightarrow>
                                if level_price level0 = price then
                                  (let top1 = level0\<lparr>level_volume := level_volume level0 - volume\<rparr>;
                                       (voldiff1, bids1) =
                                         (if level_volume top1 \<le> 0
                                          then (voldiff - level_volume top1, rest)
                                          else (voldiff, top1 # rest));
                                       b' = b1\<lparr>bids := bids1, last_change_type := Some ''bid'',
                                                last_change_price := price,
                                                last_change_volume := voldiff1\<rparr>
                                   in (update_total_bid b' voldiff1 price)\<lparr>valid_bid_cache := - 1\<rparr>)
                                else b1)
                     in if bids b2 \<noteq> [] then b2\<lparr>book_bid := level_price (hd (bids b2))\<rparr>
                        else b2)
                  else b_ask)
           in Returned b_bid [signal_changed]))"

subsection \<open>Own orders\<close>

text \<open>\<^verbatim>\<open>not typ\<close> holds of the empty string.\<close>

definition get_own_volume_at :: "orderbook \<Rightarrow> int \<Rightarrow> string \<Rightarrow> int" where
  "get_own_volume_at b price typ =
     foldl (\<lambda>volume order.
              if order_price order = price \<and> (typ = [] \<or> typ = order_typ order)
              then volume + order_volume order else volume)
       0 (owns b)"

definition have_own_oid :: "orderbook \<Rightarrow> string \<Rightarrow> bool" where
  "have_own_oid b oid = list_ex (\<lambda>order. order_oid order = oid) (owns b)"

definition find_level_or_insert_new ::
  "orderbook \<Rightarrow> string \<Rightarrow> int \<Rightarrow> error + (nat \<times> level \<times> orderbook)" where
  "find_level_or_insert_new b typ price =
     (case find_level b typ price of
        Inl e \<Rightarrow> Inl e
      | Inr (index, Some level) \<Rightarrow> Inr (index, level, b)
      | Inr (index, None) \<Rightarrow>
          (let level = Level price 0;
               b1 = set_side b typ (insert_at (side b typ) index level)
           in Inr (index, level,
                if typ = ''ask''
                then b1\<lparr>valid_ask_cache := min (valid_ask_cache b1) (int index - 1)\<rparr>
                else b1\<lparr>valid_bid_cache := min (valid_bid_cache b1) (int index - 1)\<rparr>)))"

definition update_level_own_volume :: "orderbook \<Rightarrow> string \<Rightarrow> int \<Rightarrow> int \<Rightarrow> outcome" where
  "update_level_own_volume b typ price own_volume =
     (if price = 0 then Returned b []
      else
        (case find_level_or_insert_new b typ price of
           Inl e \<Rightarrow> Raised e b []
         | Inr (index, level, b1) \<Rightarrow>
             if level_volume level = 0 \<and> own_volume = 0 then
               (if typ = ''ask'' then Returned (b1\<lparr>asks := pop (asks b1) index\<rparr>) []
                else Returned (b1\<lparr>bids := pop (bids b1) index\<rparr>) [])
             else
               Returned
                 (set_side b1 typ
                    ((side b1 typ)[index := level\<lparr>level_own_volume := own_volume\<rparr>])) []))"

text \<open>\<^verbatim>\<open>_add_own\<close> of the source.\<close>

definition add_own_inner :: "orderbook \<Rightarrow> order \<Rightarrow> outcome" where
  "add_own_inner b order =
     (if \<not> have_own_oid b (order_oid order) then
        (let b1 = b\<lparr>owns := owns b @ [order]\<rparr>
         in update_level_own_volume b1 (order_typ order) (order_price order)
              (get_own_volume_at b1 (order_price order) (order_typ order)))
      else Returned b [])"

definition add_own :: "orderbook \<Rightarrow> order \<Rightarrow> outcome" where
  "add_own b order =
     (if \<not> have_own_oid b (order_oid order) then
        then_do (Returned b [signal_debug]) (\<lambda>b0.
        then_do (add_own_inner b0 order) (\<lambda>b1.
          Returned b1 [signal_own_added order, signal_changed, signal_owns_changed]))
      else Returned b [])"

text \<open>The first index \<open>i\<close> with \<^verbatim>\<open>self.owns[i].oid == oid\<close>, if there is one.\<close>

fun find_own :: "string \<Rightarrow> order list \<Rightarrow> nat option" where
  "find_own oid [] = None"
| "find_own oid (order # rest) =
     (if order_oid order = oid then Some 0 else map_option Suc (find_own oid rest))"

text \<open>
  \<^verbatim>\<open>slot_user_order\<close>. \<open>api_reason\<close> is \<^verbatim>\<open>self.api.msg["user_order"]["reason"]\<close>,
  \<open>None\<close> when the current message of the Api has no such entry (a KeyError).
\<close>

definition slot_user_order ::
  "orderbook \<Rightarrow> string option \<Rightarrow> int \<times> int \<times> string \<times> string \<times> string \<Rightarrow> outcome" where
  "slot_user_order b api_reason data =
     (case data of (price, volume, typ, oid, status) \<Rightarrow>
        if py_in ''executing'' status then Returned b []
        else if py_in ''post-pending'' status then Returned b []
        else if py_in ''removed'' status then
          (case find_own oid (owns b) of
             None \<Rightarrow> Returned b [signal_changed, signal_owns_changed]
           | Some i \<Rightarrow>
               (let order = owns b ! i in
                if order_price order = 0 \<and> py_in ''passive'' status then Returned b []
                else
                  then_do (Returned (b\<lparr>owns := pop (owns b) i\<rparr>) [signal_debug]) (\<lambda>b1.
                  then_do (update_level_own_volume b1 (order_typ order) (order_price order)
                             (get_own_volume_at b1 (order_price order) (order_typ order))) (\<lambda>b2.
                    (case api_reason of
                       None \<Rightarrow> Raised KeyError b2 []
                     | Some reason \<Rightarrow>
                         Returned b2
                           [signal_own_removed order reason, signal_changed,
                            signal_owns_changed])))))
        else
          (case find_own oid (owns b) of
             Some i \<Rightarrow>
               (let order = owns b ! i;
                    voldiff = volume - order_volume order;
                    opened = (order_status order \<noteq> ''open'' \<and> status = ''open'');
                    order1 = order\<lparr>order_volume := volume, order_status := status\<rparr>
                in then_do (Returned (b\<lparr>owns := (owns b)[i := order1]\<rparr>) [signal_debug]) (\<lambda>b1.
                   then_do (update_level_own_volume b1 typ price
                              (get_own_volume_at b1 price typ)) (\<lambda>b2.
                     Returned b2
                       ((if opened then [signal_own_opened order1] else []) @
                        (if voldiff \<noteq> 0 then [signal_own_volume order1 voldiff] else []) @
                        [signal_changed, signal_owns_changed]))))
           | None \<Rightarrow> add_own b (Order price volume typ oid status)))"

subsection \<open>Full-depth snapshot\<close>

text \<open>
  The payload of \<^verbatim>\<open>slot_fulldepth\<close>: \<open>fd_error\<close> is the \<^verbatim>\<open>"error"\<close> entry (absent, or
  a string, which is truthy when it is not empty) and \<open>fd_data\<close> the \<^verbatim>\<open>"data"\<close> entry with
  its asks and bids, each a list of (price, amount). \<open>now\<close> is the result of
  \<^verbatim>\<open>time.strftime\<close>.
\<close>

record fulldepth =
  fd_error :: "string option"
  fd_data :: "((int \<times> int) list \<times> (int \<times> int) list) option"

fun fulldepth_asks_loop :: "(int \<times> int) list \<Rightarrow> orderbook \<Rightarrow> orderbook" where
  "fulldepth_asks_loop [] b = b"
| "fulldepth_asks_loop ((price, volume) # rest) b =
     (let b1 = update_total_ask b volume
      in fulldepth_asks_loop rest (b1\<lparr>asks := asks b1 @ [Level price volume]\<rparr>))"

fun fulldepth_bids_loop :: "(int \<times> int) list \<Rightarrow> orderbook \<Rightarrow> orderbook" where
  "fulldepth_bids_loop [] b = b"
| "fulldepth_bids_loop ((price, volume) # rest) b =
     (let b1 = update_total_bid b volume price
      in fulldepth_bids_loop rest (b1\<lparr>bids := Level price volume # bids b1\<rparr>))"

fun fulldepth_owns_loop :: "order list \<Rightarrow> orderbook \<Rightarrow> outcome" where
  "fulldepth_owns_loop [] b = Returned b []"
| "fulldepth_owns_loop (order # rest) b =
     then_do (update_level_own_volume b (order_typ order) (order_price order)
                (get_own_volume_at b (order_price order) (order_typ order)))
       (fulldepth_owns_loop rest)"

definition slot_fulldepth :: "orderbook \<Rightarrow> string \<Rightarrow> fulldepth \<Rightarrow> outcome" where
  "slot_fulldepth b now depth =
     (let b0 = b\<lparr>bids := [], asks := [], total_ask := 0, total_bid := 0\<rparr>
      in if (case fd_error depth of None \<Rightarrow> False | Some e \<Rightarrow> e \<noteq> []) then
           Returned b0 [signal_debug]
         else
           (case fd_data depth of
              None \<Rightarrow> Raised KeyError b0 []
            | Some (asks_in, bids_in) \<Rightarrow>
                then_do (fulldepth_owns_loop (owns b0)
                           (fulldepth_bids_loop bids_in (fulldepth_asks_loop asks_in b0))) (\<lambda>b1.
                  (let b2 = (if bids b1 \<noteq> []
                             then b1\<lparr>book_bid := level_price (hd (bids b1))\<rparr> else b1);
                       b3 = (if asks b2 \<noteq> []
                             then b2\<lparr>book_ask := level_price (hd (asks b2))\<rparr> else b2)
                   in Returned
                        (b3\<lparr>valid_ask_cache := - 1, valid_bid_cache := - 1,
                            ready_depth := True, depth_updated := now\<rparr>)
                        [signal_fulldepth_processed, signal_changed]))))"

subsection \<open>Cumulative totals\<close>

text \<open>
  Python indexing: a negative index counts from the end, an index out of range raises
  IndexError. \<open>py_pos\<close> is the position an index denotes.
\<close>

definition py_pos :: "'a list \<Rightarrow> int \<Rightarrow> nat option" where
  "py_pos lst i =
     (let n = int (length lst); j = (if i < 0 then n + i else i)
      in if 0 \<le> j \<and> j < n then Some (nat j) else None)"

definition py_index :: "'a list \<Rightarrow> int \<Rightarrow> error + 'a" where
  "py_index lst i = (case py_pos lst i of None \<Rightarrow> Inl IndexError | Some j \<Rightarrow> Inr (lst ! j))"

text \<open>
  The binary search of \<^verbatim>\<open>get_total_up_to\<close>. \<open>cur\<close> holds the values of \<^verbatim>\<open>mid\<close> and
  \<^verbatim>\<open>midval\<close>: \<open>None\<close> as long as the loop body has not assigned them. The result is
  their state when the loop is left, by its condition or by \<^verbatim>\<open>break\<close>.
\<close>

function total_search_loop ::
  "(int \<Rightarrow> int \<Rightarrow> bool) \<Rightarrow> level list \<Rightarrow> int \<Rightarrow> nat \<Rightarrow> nat \<Rightarrow> (nat \<times> int) option
     \<Rightarrow> (nat \<times> int) option" where
  "total_search_loop cmp lst price lo hi cur =
     (if lo < hi then
        (let mid = (lo + hi) div 2;
             midval = level_price (lst ! mid)
         in if cmp midval price then
              total_search_loop cmp lst price (mid + 1) hi (Some (mid, midval))
            else if cmp price midval then
              total_search_loop cmp lst price lo mid (Some (mid, midval))
            else Some (mid, midval))
      else cur)"
  by pat_completeness auto
termination
  by (relation "measure (\<lambda>(cmp, lst, price, lo, hi, cur). hi - lo)") auto

text \<open>\<^verbatim>\<open>for i in range(known_level, needed_level)\<close>, over the list of the values of \<open>i\<close>;
  \<^verbatim>\<open>total\<close> of the source is \<open>total_base\<close>.\<close>

fun total_loop ::
  "int list \<Rightarrow> level list \<Rightarrow> int \<Rightarrow> int \<Rightarrow> error + (level list \<times> int \<times> int)" where
  "total_loop [] lst total_base total_quote = Inr (lst, total_base, total_quote)"
| "total_loop (i # rest) lst total_base total_quote =
     (case py_pos lst (i + 1) of
        None \<Rightarrow> Inl IndexError
      | Some j \<Rightarrow>
          (let that = lst ! j;
               total_base1 = total_base + level_volume that;
               total_quote1 = total_quote + level_volume that * level_price that
           in total_loop rest
                (lst[j := that\<lparr>cache_total_vol := total_base1, cache_total_vol_quote := total_quote1\<rparr>])
                total_base1 total_quote1))"

definition get_total_up_to ::
  "orderbook \<Rightarrow> int \<Rightarrow> bool \<Rightarrow> error + ((int \<times> int) \<times> orderbook)" where
  "get_total_up_to b price is_ask =
     (let lst = (if is_ask then asks b else bids b);
          known_level = (if is_ask then valid_ask_cache b else valid_bid_cache b);
          cmp = (if is_ask then (\<lambda>x y. x < y) else (\<lambda>x y. x > y))
      in case total_search_loop cmp lst price 0 (length lst) None of
           None \<Rightarrow> Inl UnboundLocalError
         | Some (mid, midval) \<Rightarrow>
             (let needed_level = (if cmp price midval then int mid - 1 else int mid)
              in if needed_level \<le> known_level then
                   (case py_index lst needed_level of
                      Inl e \<Rightarrow> Inl e
                    | Inr lvl \<Rightarrow> Inr ((cache_total_vol lvl, cache_total_vol_quote lvl), b))
                 else
                   (case (if known_level = - 1 then Inr (0, 0)
                          else (case py_index lst known_level of
                                  Inl e \<Rightarrow> Inl e
                                | Inr lvl \<Rightarrow>
                                    Inr (cache_total_vol lvl, cache_total_vol_quote lvl))) of
                      Inl e \<Rightarrow> Inl e
                    | Inr (total_base, total_quote) \<Rightarrow>
                        (case total_loop [known_level..needed_level - 1] lst total_base total_quote of
                           Inl e \<Rightarrow> Inl e
                         | Inr (lst', total_base', total_quote') \<Rightarrow>
                             Inr ((total_base', total_quote'),
                               (if is_ask
                                then b\<lparr>asks := lst', valid_ask_cache := needed_level\<rparr>
                                else b\<lparr>bids := lst', valid_bid_cache := needed_level\<rparr>))))))"

subsection \<open>Event sequences\<close>

text \<open>
  The depth and trade events of the feed, applied in order. A slot that raises leaves
  the book as it was at the raise (\<^verbatim>\<open>Signal.__call__\<close> catches the exception).
\<close>

datatype event =
  Depth "string \<times> int \<times> int"
  | Trade "int \<times> int \<times> int \<times> string \<times> bool"

definition book_of :: "outcome \<Rightarrow> orderbook" where
  "book_of r = (case r of Returned b s \<Rightarrow> b | Raised e b s \<Rightarrow> b)"

fun apply_event :: "orderbook \<Rightarrow> event \<Rightarrow> orderbook" where
  "apply_event b (Depth data) = book_of (slot_depth b data)"
| "apply_event b (Trade data) = book_of (slot_trade b data)"

definition run_events :: "orderbook \<Rightarrow> event list \<Rightarrow> orderbook" where
  "run_events b evs = foldl apply_event b evs"

section \<open>Concrete histories, books and payloads\<close>

definition history0 :: history where
  "history0 = \<lparr>candles = [], timeframe = 60, ready_history = False\<rparr>"

definition s6_trades :: "(int \<times> int \<times> int) list" where
  "s6_trades = [(120, 10, 1), (145, 12, 2), (180, 9, 1)]"

text \<open>The empty book after one depth message: a single ask level of volume 5 at price 100.\<close>

definition book_one_ask :: orderbook where
  "book_one_ask = run_events empty_book [Depth (''ask'', 100, 5)]"

definition error_payload :: fulldepth where
  "error_payload = \<lparr>fd_error = Some ''bad'', fd_data = None\<rparr>"

text \<open>The empty book after the user_order message of a market order (price 0) "M".\<close>

definition book_market :: orderbook where
  "book_market = book_of (slot_user_order empty_book None (0, 10, ''bid'', ''M'', ''open''))"

text \<open>Scenario S2 with a bid level added: asks at 100 and 101, one bid at 50.\<close>

definition book_s2 :: orderbook where
  "book_s2 =
     run_events empty_book [Depth (''ask'', 100, 5), Depth (''ask'', 101, 3), Depth (''bid'', 50, 4)]"

text \<open>Scenario S3 with two bid levels added: asks at 99 and 100, bids at 99 and 97.\<close>

definition book_s3 :: orderbook where
  "book_s3 =
     run_events empty_book
       [Depth (''ask'', 99, 1), Depth (''ask'', 100, 2), Depth (''bid'', 97, 1),
        Depth (''bid'', 99, 2)]"

text \<open>
  The empty book after the user_order message of an own ask order at price 100, for
  which no depth message has arrived yet: the ask level at 100 has volume 0.
\<close>

definition book_own_ask :: orderbook where
  "book_own_ask = book_of (slot_user_order empty_book None (100, 10, ''ask'', ''X'', ''open''))"

text \<open>
  The empty book after a full-depth snapshot whose asks arrive in the order 101, 99:
  \<^verbatim>\<open>slot_fulldepth\<close> appends them as they come.
\<close>

definition unsorted_payload :: fulldepth where
  "unsorted_payload = \<lparr>fd_error = None, fd_data = Some ([(101, 1), (99, 2)], [])\<rparr>"

definition book_unsorted :: orderbook where
  "book_unsorted = book_of (slot_fulldepth empty_book ''now'' unsorted_payload)"

section \<open>Specification predicates\<close>

text \<open>
  Invariant 1 of the data model: asks strictly ascending and bids strictly descending
  in price. \<open>strict_cmp\<close> holds of the two comparisons \<^verbatim>\<open>_find_level\<close> can use.
\<close>

definition asks_sorted :: "level list \<Rightarrow> bool" where
  "asks_sorted lst = sorted_wrt (\<lambda>x y. x < y) (map level_price lst)"

definition bids_sorted :: "level list \<Rightarrow> bool" where
  "bids_sorted lst = sorted_wrt (\<lambda>x y. x > y) (map level_price lst)"

definition strict_cmp :: "(int \<Rightarrow> int \<Rightarrow> bool) \<Rightarrow> bool" where
  "strict_cmp cmp \<longleftrightarrow> cmp = (\<lambda>x y. x < y) \<or> cmp = (\<lambda>x y. x > y)"

declare repair_crossed_bids.simps [simp del]
declare repair_crossed_asks.simps [simp del]
declare find_level_loop.simps [simp del]
declare total_search_loop.simps [simp del]

section \<open>History: the snapshot walk counts the opening trade twice\<close>

lemma get_time_round_60:
  "get_time_round 60 120 = 120" "get_time_round 60 145 = 120" "get_time_round 60 180 = 180"
  by (simp_all add: get_time_round_def)

text \<open>
  C2. On the snapshot of scenario S6 (timeframe 60, trades at 120, 145 and 180 with
  volumes 1, 2 and 1) the walk produces volume 4 for bucket 120 and volume 2 for bucket
  180, not the sums 3 and 1 of the trades in the buckets: the trade that opens a candle
  is counted by the constructor and again by the update that follows it.
\<close>

theorem C2_fullhistory_volume_doubled:
  "slot_fullhistory history0 s6_trades =
     HReturned \<lparr>candles = [OHLCV 180 9 9 9 9 2, OHLCV 120 10 12 10 12 4],
                timeframe = 60, ready_history = True\<rparr>
       [signal_fullhistory_processed, history_signal_changed 2]"
  by (simp add: slot_fullhistory_def history0_def s6_trades_def get_time_round_60
      OHLCV_def update_def Let_def)

text \<open>
  The live path \<^verbatim>\<open>History.slot_trade\<close>, fed the same three trades one by one, builds
  the candles with the volumes 3 and 1.
\<close>

lemma history_slot_trade_s6:
  "history_slot_trade history0 (120, 10, 1, ''bid'', False) =
     HReturned (history0\<lparr>candles := [OHLCV 120 10 10 10 10 1]\<rparr>) [history_signal_changed 1]"
  "history_slot_trade (history0\<lparr>candles := [OHLCV 120 10 10 10 10 1]\<rparr>)
       (145, 12, 2, ''bid'', False) =
     HReturned (history0\<lparr>candles := [OHLCV 120 10 12 10 12 3]\<rparr>) [history_signal_changed 1]"
  "history_slot_trade (history0\<lparr>candles := [OHLCV 120 10 12 10 12 3]\<rparr>)
       (180, 9, 1, ''bid'', False) =
     HReturned (history0\<lparr>candles := [OHLCV 180 9 9 9 9 1, OHLCV 120 10 12 10 12 3]\<rparr>)
       [history_debug, history_signal_changed 2]"
  by (simp_all add: history_slot_trade_def history0_def get_time_round_60 OHLCV_def update_def
      Let_def)

section \<open>Helper facts\<close>

lemma book_one_ask_eval:
  "book_one_ask = empty_book\<lparr>asks := [Level 100 5], book_ask := 100, total_ask := 5,
      last_change_type := Some ''ask'', last_change_price := 100, last_change_volume := 5\<rparr>"
  by (simp add: book_one_ask_def run_events_def slot_depth_def update_book_def find_level_def
      find_level_loop.simps side_def set_side_def insert_at_def update_total_ask_def
      book_of_def empty_book_def Level_def Let_def)

lemma book_market_eval:
  "book_market = empty_book\<lparr>owns := [Order 0 10 ''bid'' ''M'' ''open'']\<rparr>"
  by (simp add: book_market_def slot_user_order_def py_in_def sublist_Cons_right add_own_def
      have_own_oid_def add_own_inner_def update_level_own_volume_def then_do_def book_of_def
      empty_book_def Order_def Let_def)

lemma py_in_append_right: "py_in a s \<Longrightarrow> py_in a (p @ s)"
  unfolding py_in_def sublist_def by (metis append.assoc)

lemma py_in_removed: "py_in ''removed'' (''removed:'' @ reason)"
proof -
  have "''removed:'' @ reason = [] @ ''removed'' @ ('':'' @ reason)" by simp
  then show ?thesis unfolding py_in_def sublist_def by blast
qed

lemma find_own_None:
  "find_own oid os = None \<longleftrightarrow> \<not> list_ex (\<lambda>order. order_oid order = oid) os"
  by (induction os) auto

lemma find_own_Some:
  "find_own oid os = Some i \<Longrightarrow>
     i < length os \<and> order_oid (os ! i) = oid \<and> (\<forall>j<i. order_oid (os ! j) \<noteq> oid)"
proof (induction os arbitrary: i)
  case Nil
  then show ?case by simp
next
  case (Cons order rest)
  show ?case
  proof (cases "order_oid order = oid")
    case True
    with Cons.prems show ?thesis by simp
  next
    case False
    with Cons.prems obtain k where k: "find_own oid rest = Some k" "i = Suc k"
      by auto
    from Cons.IH [OF k(1)] False k(2) show ?thesis
      by (auto simp: nth_Cons split: nat.splits)
  qed
qed

lemma update_level_own_volume_valid:
  assumes "typ = ''ask'' \<or> typ = ''bid'' \<or> price = 0"
  shows "update_level_own_volume b typ price v =
           Returned (book_of (update_level_own_volume b typ price v)) [] \<and>
         owns (book_of (update_level_own_volume b typ price v)) = owns b"
  using assms
  by (auto simp: update_level_own_volume_def find_level_or_insert_new_def find_level_def
      book_of_def set_side_def side_def Let_def split: prod.splits option.splits)

lemma total_search_loop_assigned:
  "lo < hi \<or> cur \<noteq> None \<Longrightarrow> total_search_loop cmp lst price lo hi cur \<noteq> None"
proof (induction cmp lst price lo hi cur rule: total_search_loop.induct)
  case (1 cmp lst price lo hi cur)
  show ?case
  proof (cases "lo < hi")
    case True
    then show ?thesis
      using "1.IH" by (subst total_search_loop.simps) (simp add: Let_def)
  next
    case False
    then show ?thesis
      using "1.prems" by (subst total_search_loop.simps) simp
  qed
qed

lemma total_loop_error: "total_loop idxs lst t tq = Inl e \<Longrightarrow> e = IndexError"
  by (induction idxs lst t tq rule: total_loop.induct) (auto simp: Let_def split: option.splits)

lemma py_index_error: "py_index lst i = Inl e \<Longrightarrow> e = IndexError"
  by (auto simp: py_index_def split: option.splits)

section \<open>Full-depth snapshot with an error flag\<close>

text \<open>
  C1, as the claim states it, fails: on the book with one ask level, a snapshot whose
  payload carries the error flag "bad" empties \<open>asks\<close> and resets \<open>total_ask\<close>.
\<close>

theorem C1_error_snapshot_mutates:
  "fd_error error_payload = Some ''bad'' \<and> ''bad'' \<noteq> [] \<and>
   asks (book_of (slot_fulldepth book_one_ask ''now'' error_payload)) \<noteq> asks book_one_ask \<and>
   total_ask (book_of (slot_fulldepth book_one_ask ''now'' error_payload)) \<noteq>
     total_ask book_one_ask"
  by (simp add: book_one_ask_eval slot_fulldepth_def error_payload_def book_of_def
      empty_book_def Let_def)

text \<open>
  C1, amended. For every fulldepth event whose payload carries a truthy error flag, the
  book is cleared before the flag is looked at: \<open>bids\<close> and \<open>asks\<close> become empty and
  \<open>total_bid\<close> and \<open>total_ask\<close> become 0. Every other field (\<open>ready_depth\<close>, the own
  orders, best bid and ask, the cache watermarks) keeps its value, and the only signal
  is the debug log: neither \<open>signal_fulldepth_processed\<close> nor \<open>signal_changed\<close> is
  emitted.
\<close>

theorem C1_error_snapshot:
  assumes "fd_error depth = Some e" and "e \<noteq> []"
  shows "slot_fulldepth b now depth =
           Returned (b\<lparr>bids := [], asks := [], total_ask := 0, total_bid := 0\<rparr>) [signal_debug]"
  using assms by (simp add: slot_fulldepth_def Let_def)

theorem C1_error_snapshot_witness:
  "fd_error error_payload = Some ''bad'' \<and> ''bad'' \<noteq> [] \<and>
   slot_fulldepth book_one_ask ''now'' error_payload =
     Returned (book_one_ask\<lparr>bids := [], asks := [], total_ask := 0, total_bid := 0\<rparr>)
       [signal_debug]"
  using C1_error_snapshot [of error_payload "''bad''" book_one_ask "''now''"]
  by (simp add: error_payload_def)

section \<open>User-order events\<close>

text \<open>
  C7. For every user_order event whose status contains "executing" or "post-pending"
  the slot returns at once: the book (the owns list, every level with its volume and
  own volume, all totals) is the one before the event and no signal at all is emitted.
\<close>

theorem C7_ignored_status:
  assumes "py_in ''executing'' status \<or> py_in ''post-pending'' status"
  shows "slot_user_order b api_reason (price, volume, typ, oid, status) = Returned b []"
  using assms by (auto simp: slot_user_order_def)

theorem C7_ignored_status_witness:
  "(py_in ''executing'' ''executing'' \<or> py_in ''post-pending'' ''executing'') \<and>
   slot_user_order empty_book None (100, 10, ''bid'', ''X'', ''executing'') = Returned empty_book []"
  using C7_ignored_status [of "''executing''" empty_book None 100 10 "''bid''" "''X''"]
  by (simp add: py_in_def)

text \<open>
  C8. For every removal event (status "removed:" followed by the reason) whose oid the
  lookup in \<open>owns\<close> finds at index \<open>i\<close>, the order there having price 0, and whose reason
  contains "passive": the event is ignored, the book is unchanged (the order stays in
  \<open>owns\<close>, no level or total changes) and no signal is emitted. A removal for the same
  oid whose status does not contain "passive" (the "active" one that follows) removes
  that order and emits \<open>signal_own_removed\<close>.
\<close>

theorem C8_passive_market_removal:
  assumes "find_own oid (owns b) = Some i"
    and "order_price (owns b ! i) = 0"
    and "py_in ''passive'' reason"
    and "py_in ''removed'' status2" and "\<not> py_in ''passive'' status2"
    and "\<not> py_in ''executing'' status2" and "\<not> py_in ''post-pending'' status2"
  shows "slot_user_order b api_reason (price, volume, typ, oid, ''removed:'' @ reason) =
           Returned b [] \<and>
         slot_user_order b (Some reason2) (price2, volume2, typ2, oid, status2) =
           Returned (b\<lparr>owns := pop (owns b) i\<rparr>)
             [signal_debug, signal_own_removed (owns b ! i) reason2, signal_changed,
              signal_owns_changed]"
proof
  have "py_in ''passive'' (''removed:'' @ reason)"
    using assms(3) by (rule py_in_append_right)
  with assms(1,2) py_in_removed [of reason]
  show "slot_user_order b api_reason (price, volume, typ, oid, ''removed:'' @ reason) =
           Returned b []"
    by (simp add: slot_user_order_def Let_def)
next
  show "slot_user_order b (Some reason2) (price2, volume2, typ2, oid, status2) =
           Returned (b\<lparr>owns := pop (owns b) i\<rparr>)
             [signal_debug, signal_own_removed (owns b ! i) reason2, signal_changed,
              signal_owns_changed]"
    using assms(1,2,4-7)
    by (simp add: slot_user_order_def Let_def then_do_def update_level_own_volume_def)
qed

theorem C8_passive_market_removal_witness:
  "find_own ''M'' (owns book_market) = Some 0 \<and>
   order_price (owns book_market ! 0) = 0 \<and>
   py_in ''passive'' ''completed_passive'' \<and>
   py_in ''removed'' ''removed:completed_active'' \<and>
   \<not> py_in ''passive'' ''removed:completed_active'' \<and>
   \<not> py_in ''executing'' ''removed:completed_active'' \<and>
   \<not> py_in ''post-pending'' ''removed:completed_active'' \<and>
   slot_user_order book_market None (0, 0, [], ''M'', ''removed:completed_passive'') =
     Returned book_market [] \<and>
   slot_user_order book_market (Some ''completed_active'')
       (0, 0, [], ''M'', ''removed:completed_active'') =
     Returned (book_market\<lparr>owns := []\<rparr>)
       [signal_debug, signal_own_removed (Order 0 10 ''bid'' ''M'' ''open'') ''completed_active'',
        signal_changed, signal_owns_changed]"
  using C8_passive_market_removal [of "''M''" book_market 0 "''completed_passive''"
      "''removed:completed_active''" None 0 0 "[]" "''completed_active''" 0 0 "[]"]
  by (simp add: book_market_eval py_in_def sublist_Cons_right Order_def pop_def empty_book_def)

text \<open>
  C9, as the claim states it, fails: a user_order event with status "executing" whose
  oid is not in \<open>owns\<close> is dropped; nothing is added and no \<open>signal_own_added\<close> fires.
\<close>

theorem C9_executing_unknown_oid_dropped:
  "\<not> have_own_oid empty_book ''X'' \<and>
   slot_user_order empty_book None (100, 10, ''bid'', ''X'', ''executing'') =
     Returned empty_book []"
  by (simp add: slot_user_order_def py_in_def have_own_oid_def empty_book_def)

text \<open>
  C9, amended. For every user_order event whose status contains none of "executing",
  "post-pending" and "removed", whose side is "ask" or "bid" (or whose price is 0) and
  whose oid is not present in \<open>owns\<close>: the slot does what \<open>add_own\<close> does for the new
  order and nothing more (the update path is not entered); the order is appended to
  \<open>owns\<close> and exactly one \<open>signal_own_added\<close> fires, after the debug log and before
  \<open>signal_changed\<close> and \<open>signal_owns_changed\<close>; a later \<open>add_own\<close> of an order with the
  same oid changes nothing and emits nothing.
\<close>

theorem C9_unknown_oid_added:
  assumes "\<not> py_in ''executing'' status" and "\<not> py_in ''post-pending'' status"
    and "\<not> py_in ''removed'' status"
    and "\<not> have_own_oid b oid"
    and "typ = ''ask'' \<or> typ = ''bid'' \<or> price = 0"
    and "order_oid order2 = oid"
  shows "slot_user_order b api_reason (price, volume, typ, oid, status) =
           add_own b (Order price volume typ oid status) \<and>
         add_own b (Order price volume typ oid status) =
           Returned (book_of (add_own b (Order price volume typ oid status)))
             [signal_debug, signal_own_added (Order price volume typ oid status),
              signal_changed, signal_owns_changed] \<and>
         owns (book_of (add_own b (Order price volume typ oid status))) =
           owns b @ [Order price volume typ oid status] \<and>
         add_own (book_of (add_own b (Order price volume typ oid status))) order2 =
           Returned (book_of (add_own b (Order price volume typ oid status))) []"
proof -
  let ?order = "Order price volume typ oid status"
  let ?b1 = "b\<lparr>owns := owns b @ [?order]\<rparr>"
  let ?u = "update_level_own_volume ?b1 typ price (get_own_volume_at ?b1 price typ)"
  have none: "find_own oid (owns b) = None"
    using assms(4) by (simp add: find_own_None have_own_oid_def)
  have slot: "slot_user_order b api_reason (price, volume, typ, oid, status) = add_own b ?order"
    using assms(1-3) none by (simp add: slot_user_order_def)
  obtain b2 where u: "?u = Returned b2 []" and ou: "owns b2 = owns ?b1"
    using update_level_own_volume_valid [OF assms(5)] by blast
  have fields: "order_oid ?order = oid" "order_typ ?order = typ" "order_price ?order = price"
    by (simp_all add: Order_def)
  have inner: "add_own_inner b ?order = Returned b2 []"
    using assms(4) u by (simp add: add_own_inner_def fields Let_def)
  have add: "add_own b ?order =
      Returned b2 [signal_debug, signal_own_added ?order, signal_changed, signal_owns_changed]"
    using assms(4) by (simp add: add_own_def fields inner then_do_def)
  have bk: "book_of (add_own b ?order) = b2"
    by (simp add: add book_of_def)
  have have2: "have_own_oid b2 (order_oid order2)"
    by (simp add: have_own_oid_def ou assms(6) fields)
  show ?thesis
    using slot add bk ou have2 by (simp add: add_own_def)
qed


theorem C9_unknown_oid_added_witness:
  "\<not> py_in ''executing'' ''open'' \<and> \<not> py_in ''post-pending'' ''open'' \<and>
   \<not> py_in ''removed'' ''open'' \<and> \<not> have_own_oid empty_book ''X'' \<and>
   order_oid (Order 100 10 ''bid'' ''X'' ''pending'') = ''X'' \<and>
   slot_user_order empty_book None (100, 10, ''bid'', ''X'', ''open'') =
     Returned (empty_book\<lparr>bids := [(Level 100 0)\<lparr>level_own_volume := 10\<rparr>],
                 owns := [Order 100 10 ''bid'' ''X'' ''open'']\<rparr>)
       [signal_debug, signal_own_added (Order 100 10 ''bid'' ''X'' ''open''), signal_changed,
        signal_owns_changed] \<and>
   add_own (empty_book\<lparr>bids := [(Level 100 0)\<lparr>level_own_volume := 10\<rparr>],
               owns := [Order 100 10 ''bid'' ''X'' ''open'']\<rparr>)
       (Order 100 10 ''bid'' ''X'' ''pending'') =
     Returned (empty_book\<lparr>bids := [(Level 100 0)\<lparr>level_own_volume := 10\<rparr>],
                 owns := [Order 100 10 ''bid'' ''X'' ''open'']\<rparr>) []"
proof -
  have a: "add_own empty_book (Order 100 10 ''bid'' ''X'' ''open'') =
     Returned (empty_book\<lparr>bids := [(Level 100 0)\<lparr>level_own_volume := 10\<rparr>],
                 owns := [Order 100 10 ''bid'' ''X'' ''open'']\<rparr>)
       [signal_debug, signal_own_added (Order 100 10 ''bid'' ''X'' ''open''), signal_changed,
        signal_owns_changed]"
    by (simp add: add_own_def have_own_oid_def add_own_inner_def update_level_own_volume_def
        find_level_or_insert_new_def find_level_def find_level_loop.simps get_own_volume_at_def
        side_def set_side_def insert_at_def then_do_def empty_book_def Order_def Level_def
        Let_def)
  have h1: "\<not> py_in ''executing'' ''open''" and h2: "\<not> py_in ''post-pending'' ''open''"
    and h3: "\<not> py_in ''removed'' ''open''"
    by (simp_all add: py_in_def sublist_Cons_right)
  have h4: "\<not> have_own_oid empty_book ''X''"
    by (simp add: have_own_oid_def empty_book_def)
  have h5: "''bid'' = ''ask'' \<or> ''bid'' = ''bid'' \<or> (100::int) = 0"
    by simp
  have h6: "order_oid (Order 100 10 ''bid'' ''X'' ''pending'') = ''X''"
    by (simp add: Order_def)
  show ?thesis
    using C9_unknown_oid_added [OF h1 h2 h3 h4 h5 h6, of None 10] h1 h2 h3 h4 h6
    by (simp add: a book_of_def)
qed

section \<open>Cumulative totals on an empty side\<close>

text \<open>
  C10. When the side that \<open>get_total_up_to\<close> queries is empty, the binary-search loop
  body never runs, \<^verbatim>\<open>mid\<close> and \<^verbatim>\<open>midval\<close> stay unassigned and the call raises
  (UnboundLocalError) instead of returning a total. When the side is not empty, the
  loop assigns them, and the call never raises that error.
\<close>

theorem C10_total_up_to_empty_side:
  "((if is_ask then asks b else bids b) = [] \<longrightarrow>
      total_search_loop (if is_ask then (\<lambda>x y. x < y) else (\<lambda>x y. x > y))
        (if is_ask then asks b else bids b) price 0 0 None = None \<and>
      get_total_up_to b price is_ask = Inl UnboundLocalError) \<and>
   ((if is_ask then asks b else bids b) \<noteq> [] \<longrightarrow>
      total_search_loop (if is_ask then (\<lambda>x y. x < y) else (\<lambda>x y. x > y))
        (if is_ask then asks b else bids b) price 0
        (length (if is_ask then asks b else bids b)) None \<noteq> None \<and>
      get_total_up_to b price is_ask \<noteq> Inl UnboundLocalError)"
proof (intro conjI impI)
  assume e: "(if is_ask then asks b else bids b) = []"
  show "total_search_loop (if is_ask then (\<lambda>x y. x < y) else (\<lambda>x y. x > y))
        (if is_ask then asks b else bids b) price 0 0 None = None"
    by (subst total_search_loop.simps) simp
  then show "get_total_up_to b price is_ask = Inl UnboundLocalError"
    using e by (simp add: get_total_up_to_def Let_def)
next
  assume ne: "(if is_ask then asks b else bids b) \<noteq> []"
  let ?lst = "if is_ask then asks b else bids b"
  let ?cmp = "if is_ask then (\<lambda>x y::int. x < y) else (\<lambda>x y. x > y)"
  show s: "total_search_loop ?cmp ?lst price 0 (length ?lst) None \<noteq> None"
    using ne by (intro total_search_loop_assigned) simp
  then obtain mid midval where
    m: "total_search_loop ?cmp ?lst price 0 (length ?lst) None = Some (mid, midval)"
    by (cases "total_search_loop ?cmp ?lst price 0 (length ?lst) None") auto
  show "get_total_up_to b price is_ask \<noteq> Inl UnboundLocalError"
  proof
    assume "get_total_up_to b price is_ask = Inl UnboundLocalError"
    then show False
      using m
      by (auto simp: get_total_up_to_def Let_def
          split: if_splits sum.splits prod.splits dest: py_index_error total_loop_error)
  qed
qed

theorem C10_total_up_to_empty_side_witness:
  "(asks empty_book = [] \<and> get_total_up_to empty_book 100 True = Inl UnboundLocalError) \<and>
   (bids empty_book = [] \<and> get_total_up_to empty_book 100 False = Inl UnboundLocalError) \<and>
   (asks book_one_ask \<noteq> [] \<and> get_total_up_to book_one_ask 100 True \<noteq> Inl UnboundLocalError)"
  using C10_total_up_to_empty_side [of True empty_book 100]
    C10_total_up_to_empty_side [of False empty_book 100]
    C10_total_up_to_empty_side [of True book_one_ask 100]
  by (simp add: book_one_ask_eval empty_book_def)


section \<open>Crossed levels, binary search and sorted sides\<close>

lemma book_s2_eval:
  "book_s2 = empty_book\<lparr>asks := [Level 100 5, Level 101 3], bids := [Level 50 4],
      book_ask := 100, book_bid := 50, total_ask := 8, total_bid := 200,
      last_change_type := Some ''bid'', last_change_price := 50, last_change_volume := 4\<rparr>"
  by (simp add: book_s2_def run_events_def slot_depth_def update_book_def find_level_def
      find_level_loop.simps side_def set_side_def insert_at_def update_total_ask_def
      update_total_bid_def book_of_def empty_book_def Level_def Let_def)

lemma book_s3_eval:
  "book_s3 = empty_book\<lparr>asks := [Level 99 1, Level 100 2], bids := [Level 99 2, Level 97 1],
      book_ask := 99, book_bid := 99, total_ask := 3, total_bid := 295,
      last_change_type := Some ''bid'', last_change_price := 99, last_change_volume := 2\<rparr>"
  by (simp add: book_s3_def run_events_def slot_depth_def update_book_def find_level_def
      find_level_loop.simps side_def set_side_def insert_at_def update_total_ask_def
      update_total_bid_def book_of_def empty_book_def Level_def Let_def)

lemma book_own_ask_eval:
  "book_own_ask = empty_book\<lparr>asks := [(Level 100 0)\<lparr>level_own_volume := 10\<rparr>],
      owns := [Order 100 10 ''ask'' ''X'' ''open'']\<rparr>"
  by (simp add: book_own_ask_def slot_user_order_def py_in_def sublist_Cons_right add_own_def
      have_own_oid_def add_own_inner_def update_level_own_volume_def find_level_or_insert_new_def
      find_level_def find_level_loop.simps get_own_volume_at_def side_def set_side_def
      insert_at_def then_do_def book_of_def empty_book_def Order_def Level_def Let_def)

lemma repair_crossed_asks_closed:
  "repair_crossed_asks b ask =
     b\<lparr>asks := dropWhile (\<lambda>l. level_price l < ask) (asks b),
       total_ask := total_ask b -
          sum_list (map level_volume (takeWhile (\<lambda>l. level_price l < ask) (asks b))),
       valid_ask_cache :=
          (if takeWhile (\<lambda>l. level_price l < ask) (asks b) = [] then valid_ask_cache b
           else - 1)\<rparr>"
proof (induction b ask rule: repair_crossed_asks.induct)
  case (1 b ask)
  show ?case
  proof (cases "asks b \<noteq> [] \<and> level_price (hd (asks b)) < ask")
    case True
    then obtain x xs where xs: "asks b = x # xs" and px: "level_price x < ask"
      by (cases "asks b") auto
    show ?thesis
      using True xs px "1.IH" [OF True refl refl]
      by (subst repair_crossed_asks.simps) (simp add: Let_def update_total_ask_def)
  next
    case False
    then show ?thesis
      by (subst repair_crossed_asks.simps) (cases "asks b"; simp)
  qed
qed

lemma repair_crossed_bids_closed:
  "repair_crossed_bids b bid =
     b\<lparr>bids := dropWhile (\<lambda>l. level_price l > bid) (bids b),
       total_bid := total_bid b -
          sum_list (map (\<lambda>l. level_volume l * level_price l)
            (takeWhile (\<lambda>l. level_price l > bid) (bids b))),
       valid_bid_cache :=
          (if takeWhile (\<lambda>l. level_price l > bid) (bids b) = [] then valid_bid_cache b
           else - 1)\<rparr>"
proof (induction b bid rule: repair_crossed_bids.induct)
  case (1 b bid)
  show ?case
  proof (cases "bids b \<noteq> [] \<and> level_price (hd (bids b)) > bid")
    case True
    then obtain x xs where xs: "bids b = x # xs" and px: "level_price x > bid"
      by (cases "bids b") auto
    show ?thesis
      using True xs px "1.IH" [OF True refl refl refl]
      by (subst repair_crossed_bids.simps) (simp add: Let_def update_total_bid_def)
  next
    case False
    then show ?thesis
      by (subst repair_crossed_bids.simps) (cases "bids b"; simp)
  qed
qed

lemma sorted_wrt_while_filter:
  assumes "sorted_wrt R xs" and "\<And>x y. R x y \<Longrightarrow> \<not> P x \<Longrightarrow> \<not> P y"
  shows "dropWhile P xs = filter (\<lambda>x. \<not> P x) xs \<and> takeWhile P xs = filter P xs"
  using assms(1)
proof (induction xs)
  case Nil
  then show ?case by simp
next
  case (Cons x xs)
  show ?case
  proof (cases "P x")
    case True
    with Cons show ?thesis by simp
  next
    case False
    with Cons.prems assms(2) have "\<forall>y\<in>set xs. \<not> P y" by auto
    then have "filter (\<lambda>x. \<not> P x) xs = xs" "filter P xs = []" by (auto simp: filter_empty_conv)
    with False show ?thesis by simp
  qed
qed

lemma strict_cmp_irrefl: "strict_cmp cmp \<Longrightarrow> \<not> cmp x x"
  by (auto simp: strict_cmp_def)

lemma strict_cmp_trans: "strict_cmp cmp \<Longrightarrow> cmp x y \<Longrightarrow> cmp y z \<Longrightarrow> cmp x z"
  by (auto simp: strict_cmp_def)

lemma strict_cmp_total: "strict_cmp cmp \<Longrightarrow> \<not> cmp x y \<Longrightarrow> \<not> cmp y x \<Longrightarrow> x = y"
  by (auto simp: strict_cmp_def)

lemma find_level_loop_spec:
  assumes "strict_cmp cmp"
    and "sorted_wrt cmp (map level_price lst)"
    and "lo \<le> hi" and "hi \<le> length lst"
    and "\<forall>j<lo. cmp (level_price (lst ! j)) price"
    and "\<forall>j. hi \<le> j \<and> j < length lst \<longrightarrow> cmp price (level_price (lst ! j))"
  shows "case find_level_loop cmp lst price lo hi of
           (index, Some l) \<Rightarrow> index < length lst \<and> l = lst ! index \<and> level_price l = price
         | (index, None) \<Rightarrow> index \<le> length lst \<and>
             (\<forall>j<index. cmp (level_price (lst ! j)) price) \<and>
             (\<forall>j. index \<le> j \<and> j < length lst \<longrightarrow> cmp price (level_price (lst ! j)))"
  using assms
proof (induction cmp lst price lo hi rule: find_level_loop.induct)
  case (1 cmp lst price lo hi)
  note cmp = \<open>strict_cmp cmp\<close>
  have sorted: "\<And>i j. i < j \<Longrightarrow> j < length lst \<Longrightarrow> cmp (level_price (lst ! i)) (level_price (lst ! j))"
    using "1.prems"(2) by (simp add: sorted_wrt_iff_nth_less)
  show ?case
  proof (cases "lo < hi")
    case False
    with "1.prems" show ?thesis
      by (subst find_level_loop.simps) simp
  next
    case True
    define mid where "mid = (lo + hi) div 2"
    define midval where "midval = level_price (lst ! mid)"
    have mid: "lo \<le> mid" "mid < hi" "mid < length lst"
      using True "1.prems"(4) by (auto simp: mid_def)
    show ?thesis
    proof (cases "cmp midval price")
      case c1: True
      have below: "\<forall>j<mid + 1. cmp (level_price (lst ! j)) price"
      proof (intro allI impI)
        fix j assume "j < mid + 1"
        then consider "j = mid" | "j < mid" by linarith
        then show "cmp (level_price (lst ! j)) price"
        proof cases
          case 1
          then show ?thesis using c1 by (simp add: midval_def)
        next
          case 2
          then have "cmp (level_price (lst ! j)) midval"
            unfolding midval_def using sorted mid(3) by blast
          then show ?thesis using c1 strict_cmp_trans [OF cmp] by blast
        qed
      qed
      have "find_level_loop cmp lst price lo hi = find_level_loop cmp lst price (mid + 1) hi"
        using True c1 by (subst find_level_loop.simps) (simp add: Let_def mid_def midval_def)
      moreover have "case find_level_loop cmp lst price (mid + 1) hi of
           (index, Some l) \<Rightarrow> index < length lst \<and> l = lst ! index \<and> level_price l = price
         | (index, None) \<Rightarrow> index \<le> length lst \<and>
             (\<forall>j<index. cmp (level_price (lst ! j)) price) \<and>
             (\<forall>j. index \<le> j \<and> j < length lst \<longrightarrow> cmp price (level_price (lst ! j)))"
        using "1.IH"(1) [OF True mid_def midval_def c1 cmp "1.prems"(2) _ "1.prems"(4) below
            "1.prems"(6)] mid by simp
      ultimately show ?thesis by simp
    next
      case c1: False
      show ?thesis
      proof (cases "cmp price midval")
        case c2: True
        have above: "\<forall>j. mid \<le> j \<and> j < length lst \<longrightarrow> cmp price (level_price (lst ! j))"
        proof (intro allI impI)
          fix j assume j: "mid \<le> j \<and> j < length lst"
          then consider "j = mid" | "mid < j" by linarith
          then show "cmp price (level_price (lst ! j))"
          proof cases
            case 1
            then show ?thesis using c2 by (simp add: midval_def)
          next
            case 2
            then have "cmp midval (level_price (lst ! j))"
              unfolding midval_def using sorted j by blast
            then show ?thesis using c2 strict_cmp_trans [OF cmp] by blast
          qed
        qed
        have "find_level_loop cmp lst price lo hi = find_level_loop cmp lst price lo mid"
          using True c1 c2 by (subst find_level_loop.simps) (simp add: Let_def mid_def midval_def)
        moreover have "case find_level_loop cmp lst price lo mid of
           (index, Some l) \<Rightarrow> index < length lst \<and> l = lst ! index \<and> level_price l = price
         | (index, None) \<Rightarrow> index \<le> length lst \<and>
             (\<forall>j<index. cmp (level_price (lst ! j)) price) \<and>
             (\<forall>j. index \<le> j \<and> j < length lst \<longrightarrow> cmp price (level_price (lst ! j)))"
          using "1.IH"(2) [OF True mid_def midval_def c1 c2 cmp "1.prems"(2) mid(1) _
              "1.prems"(5) above] mid by simp
        ultimately show ?thesis by simp
      next
        case c2: False
        have "midval = price"
          using c1 c2 strict_cmp_total [OF cmp] by blast
        moreover have "find_level_loop cmp lst price lo hi = (mid, Some (lst ! mid))"
          using True c1 c2 by (subst find_level_loop.simps) (simp add: Let_def mid_def midval_def)
        ultimately show ?thesis using mid by (simp add: midval_def)
      qed
    qed
  qed
qed

lemma find_level_loop_top:
  assumes "strict_cmp cmp" and "sorted_wrt cmp (map level_price lst)"
  shows "case find_level_loop cmp lst price 0 (length lst) of
           (index, Some l) \<Rightarrow> index < length lst \<and> l = lst ! index \<and> level_price l = price
         | (index, None) \<Rightarrow> index \<le> length lst \<and>
             (\<forall>l\<in>set (take index lst). cmp (level_price l) price) \<and>
             (\<forall>l\<in>set (drop index lst). cmp price (level_price l))"
proof -
  have "case find_level_loop cmp lst price 0 (length lst) of
           (index, Some l) \<Rightarrow> index < length lst \<and> l = lst ! index \<and> level_price l = price
         | (index, None) \<Rightarrow> index \<le> length lst \<and>
             (\<forall>j<index. cmp (level_price (lst ! j)) price) \<and>
             (\<forall>j. index \<le> j \<and> j < length lst \<longrightarrow> cmp price (level_price (lst ! j)))"
    using assms by (intro find_level_loop_spec) auto
  then show ?thesis
    by (auto simp: in_set_conv_nth split: prod.splits option.splits)
qed

lemma sorted_around_index:
  assumes "strict_cmp cmp" and "sorted_wrt cmp (map level_price lst)" and "index < length lst"
  shows "(\<forall>l\<in>set (take index lst). cmp (level_price l) (level_price (lst ! index))) \<and>
         (\<forall>l\<in>set (drop (Suc index) lst). cmp (level_price (lst ! index)) (level_price l))"
proof -
  have "sorted_wrt cmp (map level_price (take index lst @ lst ! index # drop (Suc index) lst))"
    using assms(2,3) by (simp add: id_take_nth_drop [symmetric])
  then show ?thesis
    by (auto simp: sorted_wrt_append)
qed

lemma sorted_insert_at:
  assumes "strict_cmp cmp" and "sorted_wrt cmp (map level_price lst)"
    and "\<forall>l\<in>set (take index lst). cmp (level_price l) (level_price x)"
    and "\<forall>l\<in>set (drop index lst). cmp (level_price x) (level_price l)"
  shows "sorted_wrt cmp (map level_price (insert_at lst index x))"
proof -
  have "sorted_wrt cmp (take index (map level_price lst))"
    and "sorted_wrt cmp (drop index (map level_price lst))"
    using assms(2) by (simp_all add: sorted_wrt_take sorted_wrt_drop)
  then have "sorted_wrt cmp (map level_price (take index lst))"
    and "sorted_wrt cmp (map level_price (drop index lst))"
    by (simp_all add: take_map drop_map)
  moreover have "cmp (level_price a) (level_price c)"
    if "a \<in> set (take index lst)" and "c \<in> set (drop index lst)" for a c
    using that assms(3,4) strict_cmp_trans [OF assms(1)] by blast
  ultimately show ?thesis
    using assms(3,4) unfolding insert_at_def
    by (auto simp: sorted_wrt_append)
qed

lemma sorted_pop:
  assumes "sorted_wrt cmp (map level_price lst)"
  shows "sorted_wrt cmp (map level_price (pop lst index))"
proof (cases "index < length lst")
  case True
  have "sorted_wrt cmp (map level_price (take index lst @ lst ! index # drop (Suc index) lst))"
    using assms True by (simp add: id_take_nth_drop [symmetric])
  then show ?thesis
    unfolding pop_def by (auto simp: sorted_wrt_append)
next
  case False
  then show ?thesis using assms by (simp add: pop_def)
qed

lemma sorted_update_volume:
  assumes "sorted_wrt cmp (map level_price lst)" and "level_price l = level_price (lst ! index)"
  shows "sorted_wrt cmp (map level_price (lst[index := l]))"
proof (cases "index < length lst")
  case True
  then have "map level_price (lst[index := l]) = map level_price lst"
    using assms(2) by (simp add: map_update list_update_same_conv)
  then show ?thesis using assms(1) by simp
next
  case False
  then have "length lst \<le> index" by linarith
  then have "lst[index := l] = lst" by (rule list_update_beyond)
  then show ?thesis using assms(1) by simp
qed

lemma insert_at_filter:
  assumes "strict_cmp cmp"
    and "\<forall>l\<in>set (take index lst). cmp (level_price l) price"
    and "\<forall>l\<in>set (drop index lst). cmp price (level_price l)"
  shows "insert_at lst index x =
           filter (\<lambda>l. cmp (level_price l) price) lst @ [x] @
           filter (\<lambda>l. cmp price (level_price l)) lst"
    and "\<forall>l\<in>set lst. level_price l \<noteq> price"
proof -
  have asym: "\<And>a b. cmp a b \<Longrightarrow> \<not> cmp b a"
    using strict_cmp_irrefl [OF assms(1)] strict_cmp_trans [OF assms(1)] by blast
  have t: "filter (\<lambda>l. cmp (level_price l) price) (take index lst) = take index lst"
    "filter (\<lambda>l. cmp price (level_price l)) (take index lst) = []"
    "filter (\<lambda>l. cmp (level_price l) price) (drop index lst) = []"
    "filter (\<lambda>l. cmp price (level_price l)) (drop index lst) = drop index lst"
    using assms(2,3) asym by (auto simp: filter_empty_conv filter_id_conv)
  have "filter (\<lambda>l. cmp (level_price l) price) (take index lst @ drop index lst) = take index lst"
    "filter (\<lambda>l. cmp price (level_price l)) (take index lst @ drop index lst) = drop index lst"
    unfolding filter_append t by simp_all
  then show "insert_at lst index x =
           filter (\<lambda>l. cmp (level_price l) price) lst @ [x] @
           filter (\<lambda>l. cmp price (level_price l)) lst"
    by (simp add: insert_at_def)
  have "set lst = set (take index lst) \<union> set (drop index lst)"
    by (metis append_take_drop_id set_append)
  then show "\<forall>l\<in>set lst. level_price l \<noteq> price"
    using assms(2,3) strict_cmp_irrefl [OF assms(1)] by auto
qed

lemma pop_filter:
  assumes "strict_cmp cmp" and "sorted_wrt cmp (map level_price lst)" and "index < length lst"
    and "level_price (lst ! index) = price"
  shows "pop lst index = filter (\<lambda>l. level_price l \<noteq> price) lst"
    and "lst[index := x] = map (\<lambda>l. if level_price l = price then x else l) lst"
proof -
  have ne: "\<forall>l\<in>set (take index lst). level_price l \<noteq> price"
    "\<forall>l\<in>set (drop (Suc index) lst). level_price l \<noteq> price"
    using sorted_around_index [OF assms(1-3)] assms(4) strict_cmp_irrefl [OF assms(1)]
    by auto
  have split: "lst = take index lst @ lst ! index # drop (Suc index) lst"
    using assms(3) by (rule id_take_nth_drop)
  have "filter (\<lambda>l. level_price l \<noteq> price) (take index lst @ lst ! index # drop (Suc index) lst)
          = take index lst @ drop (Suc index) lst"
    using ne assms(4) by (simp add: filter_id_conv)
  then show "pop lst index = filter (\<lambda>l. level_price l \<noteq> price) lst"
    using split by (simp add: pop_def)
  have "map (\<lambda>l. if level_price l = price then x else l)
          (take index lst @ lst ! index # drop (Suc index) lst)
          = take index lst @ x # drop (Suc index) lst"
    using ne assms(4) by (simp add: map_idI)
  then show "lst[index := x] = map (\<lambda>l. if level_price l = price then x else l) lst"
    using split assms(3) by (simp add: upd_conv_take_nth_drop)
qed


lemma strict_cmp_side: "strict_cmp (if typ = ''ask'' then (\<lambda>x y. x < y) else (\<lambda>x y. x > y))"
  by (simp add: strict_cmp_def)

lemma update_book_result:
  assumes "typ = ''ask'' \<or> typ = ''bid''"
    and "find_level_loop (if typ = ''ask'' then (\<lambda>x y. x < y) else (\<lambda>x y. x > y))
           (side b typ) price 0 (length (side b typ)) = (index, level)"
  shows "\<exists>changed b'. update_book b typ price total_vol = Inr (changed, b') \<and>
      (changed \<longleftrightarrow> \<not> (total_vol = 0 \<and> level = None \<or>
          total_vol \<noteq> 0 \<and> (\<exists>l. level = Some l \<and> level_volume l = total_vol))) \<and>
      (\<not> changed \<longrightarrow> b' = b) \<and>
      side b' typ =
        (if changed then
           (case level of
              None \<Rightarrow> insert_at (side b typ) index (Level price total_vol)
            | Some l \<Rightarrow> if total_vol = 0 then pop (side b typ) index
                        else (side b typ)[index := l\<lparr>level_volume := total_vol\<rparr>])
         else side b typ) \<and>
      (typ = ''ask'' \<longrightarrow> bids b' = bids b) \<and> (typ \<noteq> ''ask'' \<longrightarrow> asks b' = asks b)"
proof (cases "typ = ''ask''")
  case True
  with assms(2) show ?thesis
    by (cases level)
       (auto simp: update_book_def find_level_def side_def set_side_def Let_def
          update_total_ask_def)
next
  case False
  with assms show ?thesis
    by (cases level)
       (auto simp: update_book_def find_level_def side_def set_side_def Let_def
          update_total_bid_def)
qed

lemma asks_sorted_alt:
  "asks_sorted lst = sorted_wrt (\<lambda>x y. level_price x < level_price y) lst"
  by (simp add: asks_sorted_def sorted_wrt_map)

lemma bids_sorted_alt:
  "bids_sorted lst = sorted_wrt (\<lambda>x y. level_price x > level_price y) lst"
  by (simp add: bids_sorted_def sorted_wrt_map)

lemma side_sorted:
  assumes "asks_sorted (asks b)" and "bids_sorted (bids b)"
  shows "sorted_wrt (if typ = ''ask'' then (\<lambda>x y. x < y) else (\<lambda>x y. x > y))
           (map level_price (side b typ))"
  using assms by (simp add: side_def asks_sorted_def bids_sorted_def)

lemma update_book_sorted:
  assumes "asks_sorted (asks b)" and "bids_sorted (bids b)"
    and "update_book b typ price total_vol = Inr (changed, b')"
  shows "asks_sorted (asks b') \<and> bids_sorted (bids b')"
proof -
  let ?cmp = "if typ = ''ask'' then (\<lambda>x y::int. x < y) else (\<lambda>x y. x > y)"
  let ?lst = "side b typ"
  have valid: "typ = ''ask'' \<or> typ = ''bid''"
    using assms(3) by (auto simp: update_book_def find_level_def split: if_splits)
  have cmp: "strict_cmp ?cmp" by (rule strict_cmp_side)
  have sorted: "sorted_wrt ?cmp (map level_price ?lst)"
    using assms(1,2) by (rule side_sorted)
  obtain index level where
    f: "find_level_loop ?cmp ?lst price 0 (length ?lst) = (index, level)"
    by (cases "find_level_loop ?cmp ?lst price 0 (length ?lst)") auto
  have top: "case (index, level) of
           (index, Some l) \<Rightarrow> index < length ?lst \<and> l = ?lst ! index \<and> level_price l = price
         | (index, None) \<Rightarrow> index \<le> length ?lst \<and>
             (\<forall>l\<in>set (take index ?lst). ?cmp (level_price l) price) \<and>
             (\<forall>l\<in>set (drop index ?lst). ?cmp price (level_price l))"
    using find_level_loop_top [OF cmp sorted, of price] unfolding f .
  from update_book_result [OF valid f, of total_vol] assms(3)
  have side': "side b' typ =
        (if changed then
           (case level of
              None \<Rightarrow> insert_at ?lst index (Level price total_vol)
            | Some l \<Rightarrow> if total_vol = 0 then pop ?lst index
                        else ?lst[index := l\<lparr>level_volume := total_vol\<rparr>])
         else ?lst)"
    and other: "typ = ''ask'' \<longrightarrow> bids b' = bids b" "typ \<noteq> ''ask'' \<longrightarrow> asks b' = asks b"
    by auto
  have "sorted_wrt ?cmp (map level_price (side b' typ))"
  proof (cases changed)
    case False
    then show ?thesis using side' sorted by simp
  next
    case True
    show ?thesis
    proof (cases level)
      case None
      have "sorted_wrt ?cmp (map level_price (insert_at ?lst index (Level price total_vol)))"
        using top None by (intro sorted_insert_at [OF cmp sorted]) (simp_all add: Level_def)
      then show ?thesis using side' True None by simp
    next
      case (Some l)
      have "sorted_wrt ?cmp (map level_price (pop ?lst index))"
        using sorted by (rule sorted_pop)
      moreover have "sorted_wrt ?cmp
          (map level_price (?lst[index := l\<lparr>level_volume := total_vol\<rparr>]))"
        using top Some by (intro sorted_update_volume [OF sorted]) simp
      ultimately show ?thesis using side' True Some by (cases "total_vol = 0") auto
    qed
  qed
  then show ?thesis
    using valid other assms(1,2)
    by (auto simp: side_def asks_sorted_def bids_sorted_def split: if_splits)
qed

lemma slot_depth_sorted:
  assumes "asks_sorted (asks b)" and "bids_sorted (bids b)"
  shows "asks_sorted (asks (book_of (slot_depth b data))) \<and>
         bids_sorted (bids (book_of (slot_depth b data)))"
proof (cases data)
  case (fields t price total_vol)
  show ?thesis
  proof (cases "update_book b t price total_vol")
    case (Inl e)
    then show ?thesis using assms fields by (simp add: slot_depth_def book_of_def)
  next
    case (Inr r)
    then obtain changed b' where "update_book b t price total_vol = Inr (changed, b')"
      by (cases r) auto
    then show ?thesis
      using update_book_sorted [OF assms] fields by (simp add: slot_depth_def book_of_def)
  qed
qed

lemma asks_sorted_top:
  assumes "asks_sorted (l # rest)"
  shows "asks_sorted rest" and "asks_sorted (l\<lparr>level_volume := v\<rparr> # rest)"
  using assms by (simp_all add: asks_sorted_def)

lemma bids_sorted_top:
  assumes "bids_sorted (l # rest)"
  shows "bids_sorted rest" and "bids_sorted (l\<lparr>level_volume := v\<rparr> # rest)"
  using assms by (simp_all add: bids_sorted_def)

lemma slot_trade_sorted:
  assumes "asks_sorted (asks b)" and "bids_sorted (bids b)"
  shows "asks_sorted (asks (book_of (slot_trade b data))) \<and>
         bids_sorted (bids (book_of (slot_trade b data)))"
proof -
  obtain date price volume t own where d: "data = (date, price, volume, t, own)"
    by (cases data) auto
  let ?xs = "dropWhile (\<lambda>l. level_price l < price) (asks b)"
  let ?ys = "dropWhile (\<lambda>l. level_price l > price) (bids b)"
  have a: "asks_sorted ?xs"
    using assms(1) by (simp add: asks_sorted_alt)
  have c: "bids_sorted ?ys"
    using assms(2) by (simp add: bids_sorted_alt)
  consider (own) "own" | (bid) "\<not> own" "t = ''bid''" | (ask) "\<not> own" "t = ''ask''"
    | (other) "\<not> own" "t \<noteq> ''bid''" "t \<noteq> ''ask''"
    by blast
  then show ?thesis
  proof cases
    case own
    then show ?thesis using assms by (simp add: d slot_trade_def book_of_def)
  next
    case other
    then show ?thesis using assms by (simp add: d slot_trade_def book_of_def)
  next
    case bid
    show ?thesis
    proof (cases ?xs)
      case Nil
      show ?thesis
        using bid assms
        by (simp add: Nil d slot_trade_def book_of_def Let_def repair_crossed_asks_closed
            asks_sorted_def)
    next
      case (Cons l rest)
      have ls: "asks_sorted (l # rest)" using a Cons by simp
      have nil: "asks_sorted []" by (simp add: asks_sorted_def)
      from asks_sorted_top [OF ls] ls nil show ?thesis
        using bid assms
        by (simp add: Cons d slot_trade_def book_of_def Let_def repair_crossed_asks_closed
            update_total_ask_def)
    qed
  next
    case ask
    show ?thesis
    proof (cases ?ys)
      case Nil
      show ?thesis
        using ask assms
        by (simp add: Nil d slot_trade_def book_of_def Let_def repair_crossed_bids_closed
            bids_sorted_def)
    next
      case (Cons l rest)
      have ls: "bids_sorted (l # rest)" using c Cons by simp
      have nil: "bids_sorted []" by (simp add: bids_sorted_def)
      from bids_sorted_top [OF ls] ls nil show ?thesis
        using ask assms
        by (simp add: Cons d slot_trade_def book_of_def Let_def repair_crossed_bids_closed
            update_total_bid_def)
    qed
  qed
qed

lemma run_events_sorted:
  "asks_sorted (asks b) \<Longrightarrow> bids_sorted (bids b) \<Longrightarrow>
   asks_sorted (asks (run_events b evs)) \<and> bids_sorted (bids (run_events b evs))"
proof (induction evs arbitrary: b)
  case Nil
  then show ?case by (simp add: run_events_def)
next
  case (Cons ev evs)
  have "asks_sorted (asks (apply_event b ev)) \<and> bids_sorted (bids (apply_event b ev))"
    using slot_depth_sorted [OF Cons.prems] slot_trade_sorted [OF Cons.prems]
    by (cases ev) simp_all
  then show ?case
    using Cons.IH [of "apply_event b ev"] by (simp add: run_events_def)
qed

lemma bids_sorted_distinct: "sorted_wrt (\<lambda>x y. x > y) (xs :: int list) \<Longrightarrow> distinct xs"
  by (induction xs) auto

section \<open>Sorted sides\<close>

text \<open>
  C3. Starting from the empty book, after any finite sequence of depth and trade events
  (whatever their fields; a depth event whose type is neither "ask" nor "bid" raises and
  leaves the book as it is) the bids are strictly descending in price, the asks are
  strictly ascending in price, and no side has two levels with the same price.
\<close>

theorem C3_sides_strictly_sorted:
  "sorted_wrt (\<lambda>x y. x > y) (map level_price (bids (run_events empty_book evs))) \<and>
   sorted_wrt (\<lambda>x y. x < y) (map level_price (asks (run_events empty_book evs))) \<and>
   distinct (map level_price (bids (run_events empty_book evs))) \<and>
   distinct (map level_price (asks (run_events empty_book evs)))"
proof -
  have "asks_sorted (asks empty_book)" "bids_sorted (bids empty_book)"
    by (simp_all add: asks_sorted_def bids_sorted_def empty_book_def)
  then have s: "asks_sorted (asks (run_events empty_book evs)) \<and>
      bids_sorted (bids (run_events empty_book evs))"
    by (rule run_events_sorted)
  then show ?thesis
    using bids_sorted_distinct [of "map level_price (bids (run_events empty_book evs))"]
      strict_sorted_iff [of "map level_price (asks (run_events empty_book evs))"]
    by (simp add: asks_sorted_def bids_sorted_def)
qed


lemma found_unique:
  assumes "strict_cmp cmp" and "sorted_wrt cmp (map level_price lst)" and "index < length lst"
    and "level_price (lst ! index) = price"
  shows "\<forall>l\<in>set lst. level_price l = price \<longrightarrow> l = lst ! index"
proof -
  have ne: "\<forall>l\<in>set (take index lst). level_price l \<noteq> price"
    "\<forall>l\<in>set (drop (Suc index) lst). level_price l \<noteq> price"
    using sorted_around_index [OF assms(1-3)] assms(4) strict_cmp_irrefl [OF assms(1)]
    by auto
  have "set lst = set (take index lst @ lst ! index # drop (Suc index) lst)"
    using id_take_nth_drop [OF assms(3)] by (rule arg_cong)
  then have "set lst = set (take index lst) \<union> {lst ! index} \<union> set (drop (Suc index) lst)"
    by simp
  then show ?thesis using ne by blast
qed

lemma update_map:
  assumes "strict_cmp cmp" and "sorted_wrt cmp (map level_price lst)" and "index < length lst"
    and "level_price (lst ! index) = price"
  shows "lst[index := f (lst ! index)] = map (\<lambda>l. if level_price l = price then f l else l) lst"
proof -
  have ne: "\<forall>l\<in>set (take index lst). level_price l \<noteq> price"
    "\<forall>l\<in>set (drop (Suc index) lst). level_price l \<noteq> price"
    using sorted_around_index [OF assms(1-3)] assms(4) strict_cmp_irrefl [OF assms(1)]
    by auto
  have split: "lst = take index lst @ lst ! index # drop (Suc index) lst"
    using assms(3) by (rule id_take_nth_drop)
  have "map (\<lambda>l. if level_price l = price then f l else l)
          (take index lst @ lst ! index # drop (Suc index) lst)
          = take index lst @ f (lst ! index) # drop (Suc index) lst"
    using ne assms(4) by (simp add: map_idI)
  then show ?thesis
    using split assms(3) by (simp add: upd_conv_take_nth_drop)
qed

section \<open>Depth events\<close>

text \<open>
  C4, as the claim states it, fails: on the book whose only ask level, at price 100, has
  volume 0 (an own order is known there, no depth message has arrived), the depth event
  ("ask", 100, 0) meets a level whose volume already equals \<open>total_vol\<close>, yet the level
  is removed and \<open>signal_changed\<close> is emitted.
\<close>

theorem C4_zero_depth_removes_zero_volume_level:
  "asks book_own_ask = [(Level 100 0)\<lparr>level_own_volume := 10\<rparr>] \<and>
   level_price ((Level 100 0)\<lparr>level_own_volume := 10\<rparr>) = 100 \<and>
   level_volume ((Level 100 0)\<lparr>level_own_volume := 10\<rparr>) = 0 \<and>
   slot_depth book_own_ask (''ask'', 100, 0) =
     Returned (book_own_ask\<lparr>asks := [], last_change_type := Some ''ask'',
                 last_change_price := 100\<rparr>) [signal_changed] \<and>
   slot_depth book_own_ask (''ask'', 100, 0) \<noteq> Returned book_own_ask []"
  by (simp add: book_own_ask_eval slot_depth_def update_book_def find_level_def
      find_level_loop.simps side_def set_side_def pop_def update_total_ask_def
      empty_book_def Level_def Let_def)


text \<open>
  C4, amended. For every depth event \<open>(typ, price, total_vol)\<close> with \<open>typ\<close> "ask" or
  "bid" on a book whose sides are sorted: if \<open>total_vol = 0\<close> and no level exists at
  that price, or if \<open>total_vol \<noteq> 0\<close> and a level exists there whose volume already
  equals \<open>total_vol\<close>, the book is unchanged and no signal is emitted; otherwise
  \<open>signal_changed\<close> is emitted exactly once and the side is the old one with the level
  at that price removed (\<open>total_vol = 0\<close>), or with its volume set to \<open>total_vol\<close>, or
  with a new level of that volume inserted at its place in the order.
\<close>

theorem C4_depth_event:
  assumes "typ = ''ask'' \<or> typ = ''bid''"
    and "asks_sorted (asks b)" and "bids_sorted (bids b)"
  shows "(total_vol = 0 \<and> (\<forall>l\<in>set (side b typ). level_price l \<noteq> price) \<or>
          total_vol \<noteq> 0 \<and>
            (\<exists>l\<in>set (side b typ). level_price l = price \<and> level_volume l = total_vol) \<longrightarrow>
            slot_depth b (typ, price, total_vol) = Returned b []) \<and>
         (\<not> (total_vol = 0 \<and> (\<forall>l\<in>set (side b typ). level_price l \<noteq> price) \<or>
             total_vol \<noteq> 0 \<and>
               (\<exists>l\<in>set (side b typ). level_price l = price \<and> level_volume l = total_vol)) \<longrightarrow>
            slot_depth b (typ, price, total_vol) =
              Returned (book_of (slot_depth b (typ, price, total_vol))) [signal_changed] \<and>
            side (book_of (slot_depth b (typ, price, total_vol))) typ =
              (if \<exists>l\<in>set (side b typ). level_price l = price then
                 (if total_vol = 0 then filter (\<lambda>l. level_price l \<noteq> price) (side b typ)
                  else map (\<lambda>l. if level_price l = price then l\<lparr>level_volume := total_vol\<rparr>
                                 else l) (side b typ))
               else
                 filter (\<lambda>l. if typ = ''ask'' then level_price l < price
                              else level_price l > price) (side b typ) @
                 [Level price total_vol] @
                 filter (\<lambda>l. if typ = ''ask'' then price < level_price l
                              else price > level_price l) (side b typ)))"
proof -
  let ?cmp = "if typ = ''ask'' then (\<lambda>x y::int. x < y) else (\<lambda>x y. x > y)"
  let ?lst = "side b typ"
  let ?A = "total_vol = 0 \<and> (\<forall>l\<in>set ?lst. level_price l \<noteq> price) \<or>
          total_vol \<noteq> 0 \<and> (\<exists>l\<in>set ?lst. level_price l = price \<and> level_volume l = total_vol)"
  have cmp: "strict_cmp ?cmp" by (rule strict_cmp_side)
  have sorted: "sorted_wrt ?cmp (map level_price ?lst)"
    using assms(2,3) by (rule side_sorted)
  obtain index level where
    f: "find_level_loop ?cmp ?lst price 0 (length ?lst) = (index, level)"
    by (cases "find_level_loop ?cmp ?lst price 0 (length ?lst)") auto
  have top: "case (index, level) of
           (index, Some l) \<Rightarrow> index < length ?lst \<and> l = ?lst ! index \<and> level_price l = price
         | (index, None) \<Rightarrow> index \<le> length ?lst \<and>
             (\<forall>l\<in>set (take index ?lst). ?cmp (level_price l) price) \<and>
             (\<forall>l\<in>set (drop index ?lst). ?cmp price (level_price l))"
    using find_level_loop_top [OF cmp sorted, of price] unfolding f .
  obtain changed b' where
    u: "update_book b typ price total_vol = Inr (changed, b')"
    and ch: "changed \<longleftrightarrow> \<not> (total_vol = 0 \<and> level = None \<or>
          total_vol \<noteq> 0 \<and> (\<exists>l. level = Some l \<and> level_volume l = total_vol))"
    and same: "\<not> changed \<longrightarrow> b' = b"
    and side': "side b' typ =
        (if changed then
           (case level of
              None \<Rightarrow> insert_at ?lst index (Level price total_vol)
            | Some l \<Rightarrow> if total_vol = 0 then pop ?lst index
                        else ?lst[index := l\<lparr>level_volume := total_vol\<rparr>])
         else ?lst)"
    using update_book_result [OF assms(1) f, of total_vol] by (elim exE conjE) (rule that)
  have slot: "slot_depth b (typ, price, total_vol) =
      (if changed then Returned b' [signal_changed] else Returned b [])"
    using u same by (simp add: slot_depth_def)
  show ?thesis
  proof (cases level)
    case None
    have t: "\<forall>l\<in>set (take index ?lst). ?cmp (level_price l) price"
      "\<forall>l\<in>set (drop index ?lst). ?cmp price (level_price l)"
      using top None by simp_all
    have absent: "\<forall>l\<in>set ?lst. level_price l \<noteq> price"
      using insert_at_filter(2) [OF cmp t] .
    have ins: "insert_at ?lst index (Level price total_vol) =
           filter (\<lambda>l. ?cmp (level_price l) price) ?lst @ [Level price total_vol] @
           filter (\<lambda>l. ?cmp price (level_price l)) ?lst"
      using insert_at_filter(1) [OF cmp t] .
    have A: "?A \<longleftrightarrow> \<not> changed"
      using ch None absent by auto
    have ex: "\<not> (\<exists>l\<in>set ?lst. level_price l = price)"
      using absent by blast
    have cmp_if: "(\<lambda>l. ?cmp (level_price l) price) =
        (\<lambda>l. if typ = ''ask'' then level_price l < price else level_price l > price)"
      "(\<lambda>l. ?cmp price (level_price l)) =
        (\<lambda>l. if typ = ''ask'' then price < level_price l else price > level_price l)"
      by auto
    have new: "changed \<Longrightarrow> side b' typ =
           filter (\<lambda>l. if typ = ''ask'' then level_price l < price else level_price l > price)
             ?lst @ [Level price total_vol] @
           filter (\<lambda>l. if typ = ''ask'' then price < level_price l else price > level_price l)
             ?lst"
      using side' None ins unfolding cmp_if by simp
    show ?thesis
    proof (cases changed)
      case True
      then show ?thesis
        using A ex new by (simp only: slot book_of_def if_True if_False outcome.case) simp
    next
      case False
      then show ?thesis
        using A by (simp only: slot if_False) simp
    qed
  next
    case (Some l)
    have l: "index < length ?lst" "l = ?lst ! index" "level_price (?lst ! index) = price"
      using top Some by auto
    have uniq: "\<forall>l'\<in>set ?lst. level_price l' = price \<longrightarrow> l' = ?lst ! index"
      using found_unique [OF cmp sorted l(1,3)] .
    have mem: "?lst ! index \<in> set ?lst"
      using l(1) by simp
    have ex: "\<exists>l\<in>set ?lst. level_price l = price"
      using mem l(3) by blast
    have vol: "(\<exists>l'\<in>set ?lst. level_price l' = price \<and> level_volume l' = total_vol) \<longleftrightarrow>
        level_volume l = total_vol"
    proof
      assume "\<exists>l'\<in>set ?lst. level_price l' = price \<and> level_volume l' = total_vol"
      then obtain l' where l': "l' \<in> set ?lst" "level_price l' = price"
        "level_volume l' = total_vol"
        by blast
      with uniq have "l' = ?lst ! index" by blast
      then show "level_volume l = total_vol" using l'(3) l(2) by simp
    next
      assume "level_volume l = total_vol"
      then show "\<exists>l'\<in>set ?lst. level_price l' = price \<and> level_volume l' = total_vol"
        using mem l(2,3) by blast
    qed
    have ch': "changed \<longleftrightarrow> \<not> (total_vol \<noteq> 0 \<and> level_volume l = total_vol)"
      using ch Some by simp
    have nabs: "\<not> (\<forall>l\<in>set ?lst. level_price l \<noteq> price)"
      using ex by blast
    have A: "?A \<longleftrightarrow> \<not> changed"
      unfolding vol ch' using nabs by blast
    have p: "pop ?lst index = filter (\<lambda>l. level_price l \<noteq> price) ?lst"
      using pop_filter(1) [OF cmp sorted l(1,3)] .
    have m: "?lst[index := l\<lparr>level_volume := total_vol\<rparr>] =
        map (\<lambda>l. if level_price l = price then l\<lparr>level_volume := total_vol\<rparr> else l) ?lst"
      using update_map [OF cmp sorted l(1,3), of "\<lambda>l. l\<lparr>level_volume := total_vol\<rparr>"]
      unfolding l(2) .
    have new: "changed \<Longrightarrow> side b' typ =
        (if total_vol = 0 then filter (\<lambda>l. level_price l \<noteq> price) ?lst
         else map (\<lambda>l. if level_price l = price then l\<lparr>level_volume := total_vol\<rparr> else l)
                ?lst)"
      using side' Some p m by simp
    show ?thesis
    proof (cases changed)
      case True
      then show ?thesis
        using A ex new by (simp only: slot book_of_def if_True if_False outcome.case) simp
    next
      case False
      then show ?thesis
        using A by (simp only: slot if_False) simp
    qed
  qed
qed


theorem C4_depth_event_witness:
  "(''ask'' = ''ask'' \<or> ''ask'' = ''bid'') \<and>
   asks_sorted (asks book_one_ask) \<and> bids_sorted (bids book_one_ask) \<and>
   side book_one_ask ''ask'' = [Level 100 5] \<and>
   slot_depth book_one_ask (''ask'', 101, 0) = Returned book_one_ask [] \<and>
   slot_depth book_one_ask (''ask'', 100, 5) = Returned book_one_ask [] \<and>
   slot_depth book_one_ask (''ask'', 100, 0) =
     Returned (book_of (slot_depth book_one_ask (''ask'', 100, 0))) [signal_changed] \<and>
   side (book_of (slot_depth book_one_ask (''ask'', 100, 0))) ''ask'' = [] \<and>
   slot_depth book_one_ask (''ask'', 100, 2) =
     Returned (book_of (slot_depth book_one_ask (''ask'', 100, 2))) [signal_changed] \<and>
   side (book_of (slot_depth book_one_ask (''ask'', 100, 2))) ''ask'' = [Level 100 2] \<and>
   slot_depth book_one_ask (''ask'', 99, 1) =
     Returned (book_of (slot_depth book_one_ask (''ask'', 99, 1))) [signal_changed] \<and>
   side (book_of (slot_depth book_one_ask (''ask'', 99, 1))) ''ask'' = [Level 99 1, Level 100 5]"
proof -
  have h1: "''ask'' = ''ask'' \<or> ''ask'' = ''bid''" by simp
  have h2: "asks_sorted (asks book_one_ask)" and h3: "bids_sorted (bids book_one_ask)"
    by (simp_all add: book_one_ask_eval asks_sorted_def bids_sorted_def empty_book_def)
  have s: "side book_one_ask ''ask'' = [Level 100 5]"
    by (simp add: side_def book_one_ask_eval empty_book_def)
  have p: "level_price (Level 100 5) = 100" "level_volume (Level 100 5) = 5"
    "(Level 100 5)\<lparr>level_volume := 2\<rparr> = Level 100 2"
    by (simp_all add: Level_def)
  show ?thesis
    using C4_depth_event [OF h1 h2 h3, of 0 101] C4_depth_event [OF h1 h2 h3, of 5 100]
      C4_depth_event [OF h1 h2 h3, of 0 100] C4_depth_event [OF h1 h2 h3, of 2 100]
      C4_depth_event [OF h1 h2 h3, of 1 99] h2 h3
    by (simp add: s p)
qed

section \<open>Trade and ticker events\<close>

text \<open>
  C5. For every non-own trade event with side "bid" where, after the crossed asks have
  been repaired against the trade price, \<open>asks\<close> is not empty and its first level
  \<open>level0\<close> is at the trade price: the volume of that level is decremented by the trade
  volume; if the result is \<open>\<le> 0\<close> the level is popped and \<open>total_ask\<close> decreases by
  exactly the volume the level had before the trade (otherwise it decreases by the trade
  volume); the best ask is then the price of the new first ask level (it keeps its value
  when no ask level is left); \<open>signal_changed\<close> is emitted. Symmetrically for side "ask"
  against \<open>bids\<close>, where \<open>total_bid\<close> decreases by that volume times the price.
\<close>

theorem C5_trade_hits_top:
  "(asks (repair_crossed_asks b price) = level0 # rest \<and> level_price level0 = price \<longrightarrow>
      slot_trade b (date, price, volume, ''bid'', False) =
        Returned (book_of (slot_trade b (date, price, volume, ''bid'', False))) [signal_changed] \<and>
      asks (book_of (slot_trade b (date, price, volume, ''bid'', False))) =
        (if level_volume level0 - volume \<le> 0 then rest
         else level0\<lparr>level_volume := level_volume level0 - volume\<rparr> # rest) \<and>
      total_ask (book_of (slot_trade b (date, price, volume, ''bid'', False))) =
        total_ask (repair_crossed_asks b price) -
          (if level_volume level0 - volume \<le> 0 then level_volume level0 else volume) \<and>
      book_ask (book_of (slot_trade b (date, price, volume, ''bid'', False))) =
        (if level_volume level0 - volume \<le> 0
         then (if rest = [] then book_ask b else level_price (hd rest))
         else price)) \<and>
   (bids (repair_crossed_bids b price) = level0 # rest \<and> level_price level0 = price \<longrightarrow>
      slot_trade b (date, price, volume, ''ask'', False) =
        Returned (book_of (slot_trade b (date, price, volume, ''ask'', False))) [signal_changed] \<and>
      bids (book_of (slot_trade b (date, price, volume, ''ask'', False))) =
        (if level_volume level0 - volume \<le> 0 then rest
         else level0\<lparr>level_volume := level_volume level0 - volume\<rparr> # rest) \<and>
      total_bid (book_of (slot_trade b (date, price, volume, ''ask'', False))) =
        total_bid (repair_crossed_bids b price) -
          (if level_volume level0 - volume \<le> 0 then level_volume level0 else volume) * price \<and>
      book_bid (book_of (slot_trade b (date, price, volume, ''ask'', False))) =
        (if level_volume level0 - volume \<le> 0
         then (if rest = [] then book_bid b else level_price (hd rest))
         else price))"
proof (intro conjI impI)
  assume h: "asks (repair_crossed_asks b price) = level0 # rest \<and> level_price level0 = price"
  have ba: "book_ask (repair_crossed_asks b price) = book_ask b"
    by (simp add: repair_crossed_asks_closed)
  let ?r = "slot_trade b (date, price, volume, ''bid'', False)"
  show "?r = Returned (book_of ?r) [signal_changed]"
    by (simp add: slot_trade_def Let_def book_of_def)
  show "asks (book_of ?r) =
        (if level_volume level0 - volume \<le> 0 then rest
         else level0\<lparr>level_volume := level_volume level0 - volume\<rparr> # rest)"
    using h by (simp add: slot_trade_def Let_def book_of_def update_total_ask_def)
  show "total_ask (book_of ?r) = total_ask (repair_crossed_asks b price) -
          (if level_volume level0 - volume \<le> 0 then level_volume level0 else volume)"
    using h by (simp add: slot_trade_def Let_def book_of_def update_total_ask_def)
  show "book_ask (book_of ?r) =
        (if level_volume level0 - volume \<le> 0
         then (if rest = [] then book_ask b else level_price (hd rest))
         else price)"
    using h ba by (simp add: slot_trade_def Let_def book_of_def update_total_ask_def)
next
  assume h: "bids (repair_crossed_bids b price) = level0 # rest \<and> level_price level0 = price"
  have ba: "book_bid (repair_crossed_bids b price) = book_bid b"
    by (simp add: repair_crossed_bids_closed)
  let ?r = "slot_trade b (date, price, volume, ''ask'', False)"
  show "?r = Returned (book_of ?r) [signal_changed]"
    by (simp add: slot_trade_def Let_def book_of_def)
  show "bids (book_of ?r) =
        (if level_volume level0 - volume \<le> 0 then rest
         else level0\<lparr>level_volume := level_volume level0 - volume\<rparr> # rest)"
    using h by (simp add: slot_trade_def Let_def book_of_def update_total_bid_def)
  show "total_bid (book_of ?r) = total_bid (repair_crossed_bids b price) -
          (if level_volume level0 - volume \<le> 0 then level_volume level0 else volume) * price"
    using h by (simp add: slot_trade_def Let_def book_of_def update_total_bid_def algebra_simps)
  show "book_bid (book_of ?r) =
        (if level_volume level0 - volume \<le> 0
         then (if rest = [] then book_bid b else level_price (hd rest))
         else price)"
    using h ba by (simp add: slot_trade_def Let_def book_of_def update_total_bid_def)
qed


theorem C5_trade_hits_top_witness:
  "(asks (repair_crossed_asks book_s2 100) = Level 100 5 # [Level 101 3] \<and>
    level_price (Level 100 5) = 100) \<and>
   slot_trade book_s2 (0, 100, 5, ''bid'', False) =
     Returned (book_of (slot_trade book_s2 (0, 100, 5, ''bid'', False))) [signal_changed] \<and>
   asks (book_of (slot_trade book_s2 (0, 100, 5, ''bid'', False))) = [Level 101 3] \<and>
   total_ask (book_of (slot_trade book_s2 (0, 100, 5, ''bid'', False))) = 3 \<and>
   book_ask (book_of (slot_trade book_s2 (0, 100, 5, ''bid'', False))) = 101 \<and>
   (bids (repair_crossed_bids book_s2 50) = Level 50 4 # [] \<and>
    level_price (Level 50 4) = 50) \<and>
   slot_trade book_s2 (0, 50, 1, ''ask'', False) =
     Returned (book_of (slot_trade book_s2 (0, 50, 1, ''ask'', False))) [signal_changed] \<and>
   bids (book_of (slot_trade book_s2 (0, 50, 1, ''ask'', False))) = [Level 50 3] \<and>
   total_bid (book_of (slot_trade book_s2 (0, 50, 1, ''ask'', False))) = 150 \<and>
   book_bid (book_of (slot_trade book_s2 (0, 50, 1, ''ask'', False))) = 50"
proof -
  have a: "asks (repair_crossed_asks book_s2 100) = Level 100 5 # [Level 101 3]"
    "total_ask (repair_crossed_asks book_s2 100) = 8"
    by (simp_all add: repair_crossed_asks_closed book_s2_eval empty_book_def Level_def)
  have c: "bids (repair_crossed_bids book_s2 50) = Level 50 4 # []"
    "total_bid (repair_crossed_bids book_s2 50) = 200"
    by (simp_all add: repair_crossed_bids_closed book_s2_eval empty_book_def Level_def)
  have p: "level_price (Level 100 5) = 100" "level_price (Level 50 4) = 50"
    "level_volume (Level 100 5) = 5" "level_volume (Level 50 4) = 4"
    "level_price (Level 101 3) = 101"
    "(Level 50 4)\<lparr>level_volume := 3\<rparr> = Level 50 3"
    by (simp_all add: Level_def)
  show ?thesis
    using C5_trade_hits_top [of book_s2 100 "Level 100 5" "[Level 101 3]" 0 5]
      C5_trade_hits_top [of book_s2 50 "Level 50 4" "[]" 0 1]
    by (simp add: a c p)
qed


lemma book_unsorted_eval:
  "book_unsorted = empty_book\<lparr>asks := [Level 101 1, Level 99 2], book_ask := 101,
      total_ask := 3, ready_depth := True, depth_updated := ''now''\<rparr>"
  by (simp add: book_unsorted_def unsorted_payload_def slot_fulldepth_def then_do_def
      update_total_ask_def book_of_def empty_book_def Level_def Let_def)

text \<open>
  C6, as the claim states it, fails: on the book that the snapshot with asks 101, 99 leaves,
  the ticker event (0, 100) removes nothing, because the first ask level is not below
  100; the ask level at 99, strictly below the ticker's ask, stays and \<open>total_ask\<close> keeps
  its value.
\<close>

theorem C6_ticker_keeps_crossed_level_behind:
  "asks book_unsorted = [Level 101 1, Level 99 2] \<and>
   level_price (Level 99 2) < 100 \<and>
   asks (book_of (slot_ticker book_unsorted (0, 100))) = [Level 101 1, Level 99 2] \<and>
   total_ask (book_of (slot_ticker book_unsorted (0, 100))) = total_ask book_unsorted"
  by (simp add: book_unsorted_eval slot_ticker_def repair_crossed_asks_closed
      repair_crossed_bids_closed book_of_def empty_book_def Level_def Let_def)

text \<open>
  C6, amended. After a ticker event \<open>(bid, ask)\<close> on a book whose asks are strictly
  ascending and whose bids are strictly descending in price: every ask
  level whose price is strictly below \<open>ask\<close> is removed and \<open>total_ask\<close> is reduced by
  the volumes of the removed levels; every bid level whose price is strictly above
  \<open>bid\<close> is removed and \<open>total_bid\<close> is reduced by volume times price of the removed
  levels; the cache watermark of a side is set to -1 whenever a level of that side is
  removed (and keeps its value otherwise); best bid and ask are the ticker's values, and
  \<open>signal_changed\<close> is emitted.
\<close>

theorem C6_ticker_repairs:
  assumes "asks_sorted (asks b)" and "bids_sorted (bids b)"
  shows "slot_ticker b (bid, ask) =
           Returned (book_of (slot_ticker b (bid, ask))) [signal_changed] \<and>
         asks (book_of (slot_ticker b (bid, ask))) =
           filter (\<lambda>l. \<not> level_price l < ask) (asks b) \<and>
         total_ask (book_of (slot_ticker b (bid, ask))) =
           total_ask b - sum_list (map level_volume (filter (\<lambda>l. level_price l < ask) (asks b))) \<and>
         valid_ask_cache (book_of (slot_ticker b (bid, ask))) =
           (if filter (\<lambda>l. level_price l < ask) (asks b) = [] then valid_ask_cache b else - 1) \<and>
         bids (book_of (slot_ticker b (bid, ask))) =
           filter (\<lambda>l. \<not> level_price l > bid) (bids b) \<and>
         total_bid (book_of (slot_ticker b (bid, ask))) =
           total_bid b - sum_list (map (\<lambda>l. level_volume l * level_price l)
                                   (filter (\<lambda>l. level_price l > bid) (bids b))) \<and>
         valid_bid_cache (book_of (slot_ticker b (bid, ask))) =
           (if filter (\<lambda>l. level_price l > bid) (bids b) = [] then valid_bid_cache b else - 1) \<and>
         book_bid (book_of (slot_ticker b (bid, ask))) = bid \<and>
         book_ask (book_of (slot_ticker b (bid, ask))) = ask"
proof -
  have a: "dropWhile (\<lambda>l. level_price l < ask) (asks b) =
             filter (\<lambda>l. \<not> level_price l < ask) (asks b) \<and>
           takeWhile (\<lambda>l. level_price l < ask) (asks b) =
             filter (\<lambda>l. level_price l < ask) (asks b)"
    using assms(1) unfolding asks_sorted_def sorted_wrt_map
    by (rule sorted_wrt_while_filter) simp
  have c: "dropWhile (\<lambda>l. level_price l > bid) (bids b) =
             filter (\<lambda>l. \<not> level_price l > bid) (bids b) \<and>
           takeWhile (\<lambda>l. level_price l > bid) (bids b) =
             filter (\<lambda>l. level_price l > bid) (bids b)"
    using assms(2) unfolding bids_sorted_def sorted_wrt_map
    by (rule sorted_wrt_while_filter) simp
  show ?thesis
    by (simp add: slot_ticker_def Let_def book_of_def repair_crossed_asks_closed
        repair_crossed_bids_closed a c)
qed


theorem C6_ticker_repairs_witness:
  "asks_sorted (asks book_s3) \<and> bids_sorted (bids book_s3) \<and>
   slot_ticker book_s3 (98, 100) =
     Returned (book_of (slot_ticker book_s3 (98, 100))) [signal_changed] \<and>
   asks (book_of (slot_ticker book_s3 (98, 100))) = [Level 100 2] \<and>
   total_ask (book_of (slot_ticker book_s3 (98, 100))) = 2 \<and>
   valid_ask_cache (book_of (slot_ticker book_s3 (98, 100))) = - 1 \<and>
   bids (book_of (slot_ticker book_s3 (98, 100))) = [Level 97 1] \<and>
   total_bid (book_of (slot_ticker book_s3 (98, 100))) = 97 \<and>
   valid_bid_cache (book_of (slot_ticker book_s3 (98, 100))) = - 1 \<and>
   book_bid (book_of (slot_ticker book_s3 (98, 100))) = 98 \<and>
   book_ask (book_of (slot_ticker book_s3 (98, 100))) = 100"
proof -
  have s: "asks_sorted (asks book_s3)" "bids_sorted (bids book_s3)"
    by (simp_all add: book_s3_eval asks_sorted_def bids_sorted_def empty_book_def Level_def)
  have v: "asks book_s3 = [Level 99 1, Level 100 2]" "bids book_s3 = [Level 99 2, Level 97 1]"
    "total_ask book_s3 = 3" "total_bid book_s3 = 295"
    by (simp_all add: book_s3_eval empty_book_def)
  show ?thesis
    using C6_ticker_repairs [OF s, of 98 100] s
    by (simp add: v Level_def)
qed


end
